theory Spec2Isabelle
  imports Complex_Main "HOL-Library.AList"
begin

section \<open>Python values used by \<open>components.py\<close>\<close>

text \<open>
  A Python \<open>Optional[str]\<close> is a \<open>string option\<close>. A Python \<open>set\<close> of names is a
  duplicate-free list: \<open>s.add(x)\<close> is \<^const>\<open>List.insert\<close>, \<open>a | b\<close> is
  \<^const>\<open>List.union\<close>, \<open>len(s)\<close> is \<^const>\<open>length\<close>. Python iterates a set in an
  arbitrary order; the theorems below speak about membership and size only.
  Ratios (Python floats obtained by \<open>/\<close> on integers) are exact rationals.
\<close>

type_synonym pyname = "string option"

datatype error =
    ImportFailed string
  | ImportCrashed string
  | SourceUnreadable
  | NoPath
  | NoName

text \<open>What \<open>importlib.import_module\<close> hands back: a module object (a package is a
  module object too), or whatever else was planted in \<open>sys.modules\<close>.\<close>

datatype pyobj = ModuleObj (is_package: bool) | OtherObj (other_truthy: bool)

datatype import_outcome = Returns pyobj | RaisesImportError | RaisesOther

fun ismodule :: "pyobj \<Rightarrow> bool" where
  "ismodule (ModuleObj _) = True"
| "ismodule (OtherObj _) = False"

fun truthy :: "pyobj \<Rightarrow> bool" where
  "truthy (ModuleObj _) = True"
| "truthy (OtherObj b) = b"

text \<open>The nodes \<open>ast.walk\<close> yields: \<open>Import(names)\<close>, \<open>ImportFrom(module, names)\<close>
  (\<open>module\<close> is \<open>None\<close> for \<open>from . import y\<close>), anything else.\<close>

datatype node = Import "string list" | ImportFrom pyname "string list" | OtherNode

text \<open>A member reported by \<open>inspect.getmembers\<close>: a class with its \<open>__module__\<close> and
  whether \<open>inspect.isabstract\<close> holds of it, or something that is not a class.\<close>

datatype member = ClassObj (cls_name: string) (cls_module: string) (cls_abstract: bool)
  | NotAClass string

subsection \<open>Strings and \<open>pathlib\<close> paths\<close>

definition str_replace :: "char \<Rightarrow> char \<Rightarrow> string \<Rightarrow> string" where
  "str_replace a b s = map (\<lambda>c. if c = a then b else c) s"

fun split_on :: "char \<Rightarrow> string \<Rightarrow> string list" where
  "split_on d [] = [[]]"
| "split_on d (c # cs) =
     (if c = d then [] # split_on d cs
      else (case split_on d cs of [] \<Rightarrow> [[c]] | w # ws \<Rightarrow> (c # w) # ws))"

fun join_with :: "char \<Rightarrow> string list \<Rightarrow> string" where
  "join_with d [] = []"
| "join_with d [w] = w"
| "join_with d (w # ws) = w @ d # join_with d ws"

text \<open>A pure POSIX path: whether it is anchored at the root, and its components.
  \<open>Path\<close> reads a string as \<open>pathlib\<close> does, dropping empty and \<open>.\<close> components
  (a string that starts with exactly two slashes, which \<open>pathlib\<close> keeps as a root of
  its own, is read as rooted at \<open>/\<close>); \<open>path_str\<close>, \<open>path_parent\<close>, \<open>path_name\<close> and
  \<open>path_stem\<close> are \<open>str(p)\<close>, \<open>p.parent\<close>, \<open>p.name\<close> and \<open>p.stem\<close>.\<close>

datatype path = PosixPath (is_abs: bool) (segs: "string list")

definition Path :: "string \<Rightarrow> path" where
  "Path s = PosixPath (s \<noteq> [] \<and> hd s = CHR ''/'')
              (filter (\<lambda>p. p \<noteq> [] \<and> p \<noteq> ''.'') (split_on (CHR ''/'') s))"

definition path_str :: "path \<Rightarrow> string" where
  "path_str p =
     (if is_abs p then CHR ''/'' # join_with (CHR ''/'') (segs p)
      else if segs p = [] then ''.'' else join_with (CHR ''/'') (segs p))"

definition path_parent :: "path \<Rightarrow> path" where
  "path_parent p = PosixPath (is_abs p) (butlast (segs p))"

definition path_name :: "path \<Rightarrow> string" where
  "path_name p = (if segs p = [] then [] else last (segs p))"

text \<open>\<open>str.rfind\<close> of one character: the last index where it occurs.\<close>

fun rfind :: "char \<Rightarrow> string \<Rightarrow> nat option" where
  "rfind d [] = None"
| "rfind d (c # cs) =
     (case rfind d cs of Some i \<Rightarrow> Some (Suc i)
      | None \<Rightarrow> if c = d then Some 0 else None)"

definition path_stem :: "path \<Rightarrow> string" where
  "path_stem p =
     (let n = path_name p in
      case rfind (CHR ''.'') n of
        Some i \<Rightarrow> if 0 < i \<and> i < length n - 1 then take i n else n
      | None \<Rightarrow> n)"

section \<open>The running environment\<close>

text \<open>What the code asks of the interpreter and the file system: \<open>import_module\<close> is
  \<open>importlib.import_module\<close>; \<open>parse_file\<close> is \<open>open\<close>, \<open>ast.parse\<close> and \<open>ast.walk\<close> in
  one, the nodes in the order they are walked, \<open>None\<close> when reading or parsing raises;
  \<open>getmembers\<close> is \<open>inspect.getmembers\<close> of the module of that name; \<open>walk\<close> is
  \<open>os.walk\<close>.\<close>

record env =
  import_module :: "string \<Rightarrow> import_outcome"
  parse_file :: "path \<Rightarrow> node list option"
  getmembers :: "string \<Rightarrow> member list"
  walk :: "string \<Rightarrow> (string \<times> string list \<times> string list) list"

section \<open>\<open>ModuleComponent\<close>\<close>

text \<open>The fields of a unit. The two dependency fields are sets of units; a unit is
  represented in them by its name, the only attribute the code reads from their elements
  besides their number. The methods \<open>_get_path_from_name\<close>, \<open>_get_name_from_path\<close>,
  \<open>_import_module\<close> and \<open>_eval_dependency\<close> appear without the leading underscore,
  \<open>_import_module\<close> as \<open>import_module_guarded\<close>.\<close>

record unit_rec =
  name :: pyname
  path :: "path option"
  external_dependencies :: "pyname list"
  internal_dependents :: "pyname list"
  abstract_classes :: "member list"
  no_abstract_classes :: "member list"
  abstraction :: "rat option"
  instability :: "rat option"
  distance :: "rat option"

text \<open>Modelled from the spec: \<open>Component.__init__\<close> of \<open>src/icomponents.py\<close>, which is
  not among the sources. A new unit has empty dependency sets, no declared types and no
  cached metric.\<close>

definition Component_init :: unit_rec where
  "Component_init = \<lparr> name = None, path = None, external_dependencies = [],
     internal_dependents = [], abstract_classes = [], no_abstract_classes = [],
     abstraction = None, instability = None, distance = None \<rparr>"

text \<open>Modelled from the spec: \<open>Component.add_dependency\<close> of \<open>src/icomponents.py\<close>.
  Both dependency fields are sets of units, and a unit is identified by its name:
  the outgoing set receives the unit unless \<open>is_internal\<close>, the incoming set otherwise.\<close>

definition add_dependency :: "unit_rec \<Rightarrow> unit_rec \<Rightarrow> bool \<Rightarrow> unit_rec" where
  "add_dependency self component is_internal =
     (if is_internal
      then self\<lparr>internal_dependents := List.insert (name component) (internal_dependents self)\<rparr>
      else self\<lparr>external_dependencies := List.insert (name component) (external_dependencies self)\<rparr>)"

text \<open>Modelled from the spec: \<open>Component.add_class\<close> of \<open>src/icomponents.py\<close>. The
  declared types are an ordered sequence, each tagged abstract or concrete.\<close>

definition add_class :: "unit_rec \<Rightarrow> member \<Rightarrow> bool \<Rightarrow> unit_rec" where
  "add_class self cls is_abstract =
     (if is_abstract then self\<lparr>abstract_classes := abstract_classes self @ [cls]\<rparr>
      else self\<lparr>no_abstract_classes := no_abstract_classes self @ [cls]\<rparr>)"

text \<open>The truth value of an \<open>Optional[str]\<close>: \<open>None\<close> and the empty string are false.\<close>

definition name_truthy :: "pyname \<Rightarrow> bool" where
  "name_truthy n = (case n of None \<Rightarrow> False | Some s \<Rightarrow> s \<noteq> [])"

definition get_path_from_name :: "env \<Rightarrow> string \<Rightarrow> error + path" where
  "get_path_from_name e nm =
     (case import_module e nm of
        RaisesImportError \<Rightarrow> Inl (ImportFailed nm)
      | RaisesOther \<Rightarrow> Inl (ImportCrashed nm)
      | Returns obj \<Rightarrow>
          (let module_path = str_replace (CHR ''.'') (CHR ''/'') nm in
           if ismodule obj then Inr (Path (module_path @ ''.py''))
           else Inr (Path (module_path @ ''/__init__.py''))))"

definition get_name_from_path :: "path \<Rightarrow> string" where
  "get_name_from_path p =
     (let parent_name = str_replace (CHR ''/'') (CHR ''.'') (path_str (path_parent p)) in
      if ''__init__.py'' = path_name p then parent_name
      else parent_name @ ''.'' @ path_stem p)"

text \<open>\<open>ModuleComponent.__init__\<close>: a name is derived from a path when no name is given, a
  path from a name, by importing it, when no path is given. A \<open>Path\<close> object is always
  true.\<close>

definition ModuleComponent :: "env \<Rightarrow> path option \<Rightarrow> pyname \<Rightarrow> error + unit_rec" where
  "ModuleComponent e pth nm =
     (let nm1 = (case pth of Some p \<Rightarrow> if \<not> name_truthy nm then Some (get_name_from_path p) else nm
                 | None \<Rightarrow> nm)
      in case (nm1, pth) of
           (Some n, None) \<Rightarrow>
             (if n \<noteq> [] then
                (case get_path_from_name e n of
                   Inl err \<Rightarrow> Inl err
                 | Inr p \<Rightarrow> Inr (Component_init\<lparr>name := nm1, path := Some p\<rparr>))
              else Inr (Component_init\<lparr>name := nm1, path := pth\<rparr>))
         | _ \<Rightarrow> Inr (Component_init\<lparr>name := nm1, path := pth\<rparr>))"

definition depend_of :: "unit_rec \<Rightarrow> string \<Rightarrow> bool" where
  "depend_of self component_name = list_ex (\<lambda>c. c = Some component_name) (external_dependencies self)"

subsection \<open>Import extraction\<close>

text \<open>\<open>_import_module\<close> absorbs \<open>ImportError\<close> and returns \<open>None\<close>; any other exception
  goes through. \<open>resolve_aliases\<close> is the loop of \<open>_eval_dependency\<close> over the names of a
  \<open>from\<close> import, \<open>fmt_name\<close> the formatting of \<open>dep.module\<close> in the f-string, and
  \<open>collect_imports\<close> the loop of \<open>get_dependencies\<close> over the walked nodes.\<close>

definition import_module_guarded :: "env \<Rightarrow> string \<Rightarrow> error + pyobj option" where
  "import_module_guarded e module_path =
     (case import_module e module_path of
        Returns obj \<Rightarrow> Inr (Some obj)
      | RaisesImportError \<Rightarrow> Inr None
      | RaisesOther \<Rightarrow> Inl (ImportCrashed module_path))"

definition fmt_name :: "pyname \<Rightarrow> string" where
  "fmt_name n = (case n of None \<Rightarrow> ''None'' | Some s \<Rightarrow> s)"

fun resolve_aliases :: "env \<Rightarrow> pyname \<Rightarrow> string list \<Rightarrow> pyname list \<Rightarrow> error + pyname list" where
  "resolve_aliases e m [] modules = Inr modules"
| "resolve_aliases e m (a # as) modules =
     (let module_path = fmt_name m @ ''.'' @ a in
      case import_module_guarded e module_path of
        Inl err \<Rightarrow> Inl err
      | Inr r \<Rightarrow>
          (if (case r of None \<Rightarrow> False | Some obj \<Rightarrow> truthy obj)
           then resolve_aliases e m as (List.insert (Some module_path) modules)
           else resolve_aliases e m as modules))"

fun eval_dependency :: "env \<Rightarrow> node \<Rightarrow> error + pyname list" where
  "eval_dependency e (Import names) = Inr (fold (\<lambda>a s. List.insert (Some a) s) names [])"
| "eval_dependency e (ImportFrom m names) =
     (case resolve_aliases e m names [] of
        Inl err \<Rightarrow> Inl err
      | Inr modules \<Rightarrow>
          (let imports = List.union [] modules in
           if length modules \<noteq> length names then Inr (List.insert m imports) else Inr imports))"
| "eval_dependency e OtherNode = Inr []"

fun collect_imports :: "env \<Rightarrow> node list \<Rightarrow> pyname list \<Rightarrow> error + pyname list" where
  "collect_imports e [] imports = Inr imports"
| "collect_imports e (n # ns) imports =
     (case eval_dependency e n of
        Inl err \<Rightarrow> Inl err
      | Inr deps \<Rightarrow> collect_imports e ns (List.union imports deps))"

definition get_dependencies :: "env \<Rightarrow> unit_rec \<Rightarrow> error + pyname list" where
  "get_dependencies e self =
     (case path self of
        None \<Rightarrow> Inl NoPath
      | Some p \<Rightarrow>
          (case parse_file e p of
             None \<Rightarrow> Inl SourceUnreadable
           | Some tree \<Rightarrow> collect_imports e tree []))"

text \<open>A dotted name resolves when importing it returns an object that is true.\<close>

definition resolves :: "env \<Rightarrow> string \<Rightarrow> bool" where
  "resolves e p = (case import_module e p of Returns obj \<Rightarrow> truthy obj | _ \<Rightarrow> False)"

subsection \<open>Loading dependencies and classes of one unit\<close>

text \<open>\<open>ignore_dependencies and module in ignore_dependencies\<close>; \<open>add_modules\<close> is the loop
  of \<open>load_dependencies\<close> over the extracted names and \<open>add_members\<close> the loop of
  \<open>load_classes\<close> over the members of the module.\<close>

definition ignored :: "string list option \<Rightarrow> pyname \<Rightarrow> bool" where
  "ignored ignore_dependencies m =
     (case ignore_dependencies of
        None \<Rightarrow> False
      | Some l \<Rightarrow> l \<noteq> [] \<and> m \<in> set (map Some l))"

fun add_modules :: "env \<Rightarrow> string list option \<Rightarrow> pyname list \<Rightarrow> unit_rec \<Rightarrow> error + unit_rec" where
  "add_modules e ign [] self = Inr self"
| "add_modules e ign (m # ms) self =
     (if ignored ign m then add_modules e ign ms self
      else (case ModuleComponent e None m of
              Inl err \<Rightarrow> Inl err
            | Inr dep_comp \<Rightarrow> add_modules e ign ms (add_dependency self dep_comp False)))"

definition load_dependencies :: "env \<Rightarrow> unit_rec \<Rightarrow> string list option \<Rightarrow> error + unit_rec" where
  "load_dependencies e self ign =
     (if external_dependencies self \<noteq> [] then Inr self
      else (case get_dependencies e self of
              Inl err \<Rightarrow> Inl err
            | Inr dependencies \<Rightarrow> add_modules e ign dependencies self))"

fun add_members :: "member list \<Rightarrow> unit_rec \<Rightarrow> unit_rec" where
  "add_members [] self = self"
| "add_members (ClassObj n md ab # ms) self =
     (if \<not> depend_of self md then add_members ms (add_class self (ClassObj n md ab) ab)
      else add_members ms self)"
| "add_members (NotAClass n # ms) self = add_members ms self"

definition load_classes :: "env \<Rightarrow> unit_rec \<Rightarrow> error + unit_rec" where
  "load_classes e self =
     (if no_abstract_classes self \<noteq> [] \<or> abstract_classes self \<noteq> [] then Inr self
      else (case name self of
              None \<Rightarrow> Inl NoName
            | Some n \<Rightarrow>
                (case import_module e n of
                   RaisesImportError \<Rightarrow> Inl (ImportFailed n)
                 | RaisesOther \<Rightarrow> Inl (ImportCrashed n)
                 | Returns obj \<Rightarrow> Inr (add_members (getmembers e n) self))))"

subsection \<open>Metrics of one unit\<close>

text \<open>Modelled from the spec: the quotient both metric formulas of \<open>src/icomponents.py\<close>
  use, defined as \<open>0\<close> when the denominator is \<open>0\<close>.\<close>

definition ratio :: "nat \<Rightarrow> nat \<Rightarrow> rat" where
  "ratio part whole = (if whole = 0 then 0 else of_nat part / of_nat whole)"

text \<open>Modelled from the spec: \<open>Component.calculate_instability\<close> of
  \<open>src/icomponents.py\<close>. \<open>I = Ce / (Ce + Ca)\<close>, \<open>0\<close> when \<open>Ce + Ca = 0\<close>, computed once
  and then kept.\<close>

definition calculate_instability :: "unit_rec \<Rightarrow> unit_rec" where
  "calculate_instability self =
     (case instability self of
        Some i \<Rightarrow> self
      | None \<Rightarrow>
          (let ce = length (external_dependencies self); ca = length (internal_dependents self)
           in self\<lparr>instability := Some (ratio ce (ce + ca))\<rparr>))"

text \<open>Modelled from the spec: \<open>Component.calculate_abstraction\<close> of
  \<open>src/icomponents.py\<close>. \<open>A\<close> is the number of abstract types over the number of
  declared types, \<open>0\<close> when none is declared, computed once and then kept.\<close>

definition calculate_abstraction :: "unit_rec \<Rightarrow> unit_rec" where
  "calculate_abstraction self =
     (case abstraction self of
        Some a \<Rightarrow> self
      | None \<Rightarrow>
          (let na = length (abstract_classes self); nc = length (no_abstract_classes self)
           in self\<lparr>abstraction := Some (ratio na (na + nc))\<rparr>))"

text \<open>Modelled from the spec: the number held by a metric field of \<open>Component\<close>. An
  unset field never reaches it, since \<open>get_distance\<close> reads the fields after having
  computed them.\<close>

definition metric_value :: "rat option \<Rightarrow> rat" where
  "metric_value v = (case v of Some x \<Rightarrow> x | None \<Rightarrow> 0)"

text \<open>Modelled from the spec: \<open>Component.get_distance\<close> of \<open>src/icomponents.py\<close>.
  \<open>D = |A + I - 1|\<close> over the unit's memoized abstraction and instability, computed once
  and then kept.\<close>

definition get_distance :: "unit_rec \<Rightarrow> unit_rec \<times> rat" where
  "get_distance self =
     (case distance self of
        Some d \<Rightarrow> (self, d)
      | None \<Rightarrow>
          (let s1 = calculate_abstraction (calculate_instability self);
               d = \<bar>metric_value (abstraction s1) + metric_value (instability s1) - 1\<bar>
           in (s1\<lparr>distance := Some d\<rparr>, d)))"

definition get_instability :: "unit_rec \<Rightarrow> unit_rec \<times> rat option" where
  "get_instability self = (let s1 = calculate_instability self in (s1, instability s1))"

definition get_abstraction :: "env \<Rightarrow> unit_rec \<Rightarrow> error + unit_rec \<times> rat option" where
  "get_abstraction e self =
     (case load_classes e self of
        Inl err \<Rightarrow> Inl err
      | Inr s1 \<Rightarrow> (let s2 = calculate_abstraction s1 in Inr (s2, abstraction s2)))"

section \<open>\<open>ModuleComponentLoader\<close>\<close>

text \<open>The mapping \<open>components\<close> is a Python \<open>dict\<close>: an association list in insertion
  order, read with \<^const>\<open>map_of\<close> and written with \<^const>\<open>AList.update\<close>. The methods
  \<open>_load_components\<close>, \<open>_load_dependencies\<close> and \<open>_load_classes\<close> of the loader appear as
  \<open>load_components_of\<close>, \<open>load_dependencies_all\<close> and \<open>load_classes_all\<close>.\<close>

type_synonym components = "(pyname \<times> unit_rec) list"

record loader =
  root_path :: "string option"
  components :: components
  ignore_dependencies :: "string list"

text \<open>\<open>ASPoint\<close>, the named tuple \<open>(x, y, d)\<close> of \<open>dtos.py\<close>.\<close>

record as_point =
  pt_x :: "rat option"
  pt_y :: "rat option"
  pt_d :: rat

text \<open>Modelled from the spec: \<open>ComponentLoader.__init__\<close> of \<open>src/icomponents.py\<close>,
  which is not among the sources. A new loader has no unit and an empty ignore set.\<close>

definition ComponentLoader_init :: loader where
  "ComponentLoader_init = \<lparr> root_path = None, components = [], ignore_dependencies = [] \<rparr>"

text \<open>Modelled from the spec: \<open>ComponentLoader.ignore_deps\<close> of \<open>src/icomponents.py\<close>
  adds the given names to the loader's ignore set.\<close>

definition ignore_deps :: "loader \<Rightarrow> string list \<Rightarrow> loader" where
  "ignore_deps self deps = self\<lparr>ignore_dependencies := ignore_dependencies self @ deps\<rparr>"

definition ignore_native_library :: "loader \<Rightarrow> loader" where
  "ignore_native_library self = ignore_deps self [''abc'', ''typing'']"

definition ModuleComponentLoader :: "string option \<Rightarrow> loader" where
  "ModuleComponentLoader rp = ignore_native_library (ComponentLoader_init\<lparr>root_path := rp\<rparr>)"

subsection \<open>Discovery\<close>

text \<open>\<open>str.endswith\<close>.\<close>

definition endswith :: "string \<Rightarrow> string \<Rightarrow> bool" where
  "endswith s suffix = (length suffix \<le> length s \<and> drop (length s - length suffix) s = suffix)"

text \<open>\<open>os.path.join\<close> of two POSIX components.\<close>

definition path_join :: "string \<Rightarrow> string \<Rightarrow> string" where
  "path_join a b =
     (if b \<noteq> [] \<and> hd b = CHR ''/'' then b
      else if a = [] \<or> last a = CHR ''/'' then a @ b
      else a @ ''/'' @ b)"

fun find_py_modules :: "string \<Rightarrow> string list \<Rightarrow> path list" where
  "find_py_modules rt [] = []"
| "find_py_modules rt (m # ms) =
     (if \<not> endswith m ''.py'' then find_py_modules rt ms
      else Path (path_join rt m) # find_py_modules rt ms)"

fun py_modules_of :: "(string \<times> string list \<times> string list) list \<Rightarrow> path list" where
  "py_modules_of [] = []"
| "py_modules_of ((rt, packages, modules) # rest) =
     (if ''__init__.py'' \<notin> set modules then py_modules_of rest
      else find_py_modules rt modules @ py_modules_of rest)"

definition get_py_modules :: "env \<Rightarrow> string \<Rightarrow> path list" where
  "get_py_modules e rp = py_modules_of (walk e rp)"

fun store_modules :: "env \<Rightarrow> path list \<Rightarrow> components \<Rightarrow> error + components" where
  "store_modules e [] cs = Inr cs"
| "store_modules e (m # ms) cs =
     (case ModuleComponent e (Some m) None of
        Inl err \<Rightarrow> Inl err
      | Inr component \<Rightarrow> store_modules e ms (AList.update (name component) component cs))"

definition load_components_of :: "env \<Rightarrow> loader \<Rightarrow> string \<Rightarrow> error + loader" where
  "load_components_of e self rp =
     (case store_modules e (get_py_modules e rp) (components self) of
        Inl err \<Rightarrow> Inl err
      | Inr cs \<Rightarrow> Inr (self\<lparr>components := cs\<rparr>))"

subsection \<open>Dependency resolution\<close>

text \<open>The inner loop of \<open>_load_dependencies\<close>: every outgoing edge of \<open>component\<close> whose
  target's name is a key of the mapping adds \<open>component\<close> to that target's incoming set.\<close>

fun link_dependents :: "unit_rec \<Rightarrow> pyname list \<Rightarrow> components \<Rightarrow> components" where
  "link_dependents component [] cs = cs"
| "link_dependents component (dep # deps) cs =
     (case map_of cs dep of
        Some comp_deps \<Rightarrow>
          link_dependents component deps
            (AList.update dep (add_dependency comp_deps component True) cs)
      | None \<Rightarrow> link_dependents component deps cs)"

text \<open>The outer loop, over the keys of the mapping in insertion order. The unit of a key
  is read from the mapping when its turn comes: it is the same object that earlier turns
  may have given incoming edges.\<close>

fun resolve_units :: "env \<Rightarrow> string list option \<Rightarrow> pyname list \<Rightarrow> components \<Rightarrow> error + components" where
  "resolve_units e ign [] cs = Inr cs"
| "resolve_units e ign (k # ks) cs =
     (case map_of cs k of
        None \<Rightarrow> resolve_units e ign ks cs
      | Some component \<Rightarrow>
          (case load_dependencies e component ign of
             Inl err \<Rightarrow> Inl err
           | Inr c1 \<Rightarrow>
               resolve_units e ign ks
                 (link_dependents c1 (external_dependencies c1) (AList.update k c1 cs))))"

text \<open>The caller's ignore list is a mutable object, so list objects live in a store
  (a list of cells, a reference being an index) and the argument of \<open>_load_dependencies\<close> is
  \<open>None\<close> or a reference. A falsy argument (\<open>None\<close>, or a reference to \<open>[]\<close>) is rebound to
  a newly allocated empty list; \<open>+=\<close> then extends in place whatever list the name is bound
  to. The loader's own \<open>ignore_dependencies\<close> is held by value.\<close>

type_synonym store = "string list list"

definition ignore_target :: "store \<Rightarrow> nat option \<Rightarrow> store \<times> nat" where
  "ignore_target h arg =
     (case arg of
        None \<Rightarrow> (h @ [[]], length h)
      | Some r \<Rightarrow> if h ! r = [] then (h @ [[]], length h) else (h, r))"

definition load_dependencies_all ::
    "env \<Rightarrow> loader \<Rightarrow> store \<Rightarrow> nat option \<Rightarrow> store \<times> (error + loader)" where
  "load_dependencies_all e self h arg =
     (let (h1, r) = ignore_target h arg;
          h2 = h1[r := h1 ! r @ ignore_dependencies self]
      in (h2,
          case resolve_units e (Some (h2 ! r)) (map fst (components self)) (components self) of
            Inl err \<Rightarrow> Inl err
          | Inr cs \<Rightarrow> Inr (self\<lparr>components := cs\<rparr>)))"

text \<open>\<open>_load_classes\<close>: every unit of the mapping loads its classes; a unit touches no
  other.\<close>

fun load_classes_each :: "env \<Rightarrow> components \<Rightarrow> error + components" where
  "load_classes_each e [] = Inr []"
| "load_classes_each e ((k, component) # rest) =
     (case load_classes e component of
        Inl err \<Rightarrow> Inl err
      | Inr c1 \<Rightarrow>
          (case load_classes_each e rest of
             Inl err \<Rightarrow> Inl err
           | Inr rest1 \<Rightarrow> Inr ((k, c1) # rest1)))"

definition load_classes_all :: "env \<Rightarrow> loader \<Rightarrow> error + loader" where
  "load_classes_all e self =
     (case load_classes_each e (components self) of
        Inl err \<Rightarrow> Inl err
      | Inr cs \<Rightarrow> Inr (self\<lparr>components := cs\<rparr>))"

text \<open>\<open>load_components\<close>: discovery, dependency resolution, type classification. With
  no root path at all, \<open>os.walk\<close> raises before anything else is done.\<close>

definition load_components ::
    "env \<Rightarrow> loader \<Rightarrow> string option \<Rightarrow> store \<Rightarrow> nat option \<Rightarrow> store \<times> (error + loader)" where
  "load_components e self rp h arg =
     (let rp1 = (if name_truthy rp then rp else root_path self) in
      case rp1 of
        None \<Rightarrow> (h, Inl NoPath)
      | Some r \<Rightarrow>
          (case load_components_of e self r of
             Inl err \<Rightarrow> (h, Inl err)
           | Inr s1 \<Rightarrow>
               (case load_dependencies_all e s1 h arg of
                  (h1, Inl err) \<Rightarrow> (h1, Inl err)
                | (h1, Inr s2) \<Rightarrow> (h1, load_classes_all e s2))))"

subsection \<open>The plane\<close>

text \<open>\<open>get_as_plane\<close>, with its loop over the mapping.\<close>

fun plane_each ::
    "env \<Rightarrow> components \<Rightarrow> (pyname \<times> as_point) list \<Rightarrow> error + components \<times> (pyname \<times> as_point) list" where
  "plane_each e [] as_plane = Inr ([], as_plane)"
| "plane_each e ((k, component) # rest) as_plane =
     (let (c1, i) = get_instability component in
      case get_abstraction e c1 of
        Inl err \<Rightarrow> Inl err
      | Inr (c2, a) \<Rightarrow>
          (let (c3, dist) = get_distance c2 in
           case plane_each e rest (AList.update k \<lparr>pt_x = i, pt_y = a, pt_d = dist\<rparr> as_plane) of
             Inl err \<Rightarrow> Inl err
           | Inr (rest1, plane) \<Rightarrow> Inr ((k, c3) # rest1, plane)))"

definition get_as_plane :: "env \<Rightarrow> loader \<Rightarrow> error + loader \<times> (pyname \<times> as_point) list" where
  "get_as_plane e self =
     (case plane_each e (components self) [] of
        Inl err \<Rightarrow> Inl err
      | Inr (cs, plane) \<Rightarrow> Inr (self\<lparr>components := cs\<rparr>, plane))"

section \<open>Predicates of the statements\<close>

text \<open>The list the name \<open>ignore_dependencies\<close> is bound to when the loop of
  \<open>_load_dependencies\<close> starts: the caller's entries, if any, followed by the loader's own.\<close>

definition effective_ignore :: "loader \<Rightarrow> store \<Rightarrow> nat option \<Rightarrow> string list" where
  "effective_ignore self h arg =
     (let (h1, r) = ignore_target h arg in (h1[r := h1 ! r @ ignore_dependencies self]) ! r)"

text \<open>A reference handed in by the caller points into the store.\<close>

definition valid_ref :: "store \<Rightarrow> nat option \<Rightarrow> bool" where
  "valid_ref h arg = (case arg of None \<Rightarrow> True | Some r \<Rightarrow> r < length h)"


text \<open>Every unit is stored under its own name, as \<open>_load_components\<close> stores it.\<close>

definition names_are_keys :: "components \<Rightarrow> bool" where
  "names_are_keys cs = list_all (\<lambda>(k, v). name v = k) cs"

text \<open>For the units stored under the keys \<open>P\<close>: each outgoing edge to a key of the mapping
  has its incoming edge at the target.\<close>

definition edges_mirrored :: "pyname set \<Rightarrow> components \<Rightarrow> bool" where
  "edges_mirrored P cs =
     (\<forall>a\<in>P. \<forall>ua b ub. map_of cs a = Some ua \<longrightarrow> map_of cs b = Some ub \<longrightarrow>
        b \<in> set (external_dependencies ua) \<longrightarrow> name ua \<in> set (internal_dependents ub))"

text \<open>For the units stored under the keys \<open>P\<close>: \<open>load_dependencies\<close> returns and changes
  nothing.\<close>

definition loaded :: "pyname set \<Rightarrow> env \<Rightarrow> string list option \<Rightarrow> components \<Rightarrow> bool" where
  "loaded P e ign cs =
     (\<forall>a\<in>P. \<forall>ua. map_of cs a = Some ua \<longrightarrow> load_dependencies e ua ign = Inr ua)"

text \<open>No unit of the mapping has the name \<open>m\<close> in its outgoing or incoming set; no unit of
  the mapping is named \<open>m\<close>.\<close>

definition unmentioned :: "string \<Rightarrow> components \<Rightarrow> bool" where
  "unmentioned m cs =
     list_all (\<lambda>(k, c). Some m \<notin> set (external_dependencies c)
                       \<and> Some m \<notin> set (internal_dependents c)) cs"

definition not_a_unit :: "string \<Rightarrow> components \<Rightarrow> bool" where
  "not_a_unit m cs = list_all (\<lambda>(k, c). name c \<noteq> Some m) cs"

text \<open>The metric fields of a unit are unset or hold what the metric operations compute: ratios
  within \<open>[0, 1]\<close>, and a distance only together with the abstraction and instability it was
  computed from.\<close>

definition metrics_ok :: "unit_rec \<Rightarrow> bool" where
  "metrics_ok u =
     ((case instability u of None \<Rightarrow> True | Some i \<Rightarrow> 0 \<le> i \<and> i \<le> 1)
      \<and> (case abstraction u of None \<Rightarrow> True | Some a \<Rightarrow> 0 \<le> a \<and> a \<le> 1)
      \<and> (case distance u of
            None \<Rightarrow> True
          | Some dd \<Rightarrow>
              (case (abstraction u, instability u) of
                 (Some a, Some i) \<Rightarrow> dd = \<bar>a + i - 1\<bar>
               | _ \<Rightarrow> False)))"

text \<open>A point of the plane lies on the formula and within the bounds.\<close>

definition on_formula :: "as_point \<Rightarrow> bool" where
  "on_formula pt =
     (case (pt_x pt, pt_y pt) of
        (Some i, Some a) \<Rightarrow>
          pt_d pt = \<bar>a + i - 1\<bar> \<and> 0 \<le> i \<and> i \<le> 1 \<and> 0 \<le> a \<and> a \<le> 1
            \<and> 0 \<le> pt_d pt \<and> pt_d pt \<le> 1
      | _ \<Rightarrow> False)"


section \<open>A small project\<close>

text \<open>A package \<open>proj\<close> with \<open>__init__.py\<close>, \<open>main.py\<close> (\<open>import os\<close>,
  \<open>from pkg import a, b\<close>, \<open>from proj import util\<close>) and \<open>util.py\<close>
  (\<open>import typing\<close>, an abstract class \<open>Base\<close> and a concrete class \<open>Impl\<close>);
  \<open>pkg.b\<close> is a function of \<open>pkg\<close>, not a module.\<close>

definition demo_env :: env where
  "demo_env = \<lparr>
     import_module = (\<lambda>m. if m \<in> {''os'', ''pkg.a'', ''proj.main'', ''proj.util'', ''typing''}
                          then Returns (ModuleObj False)
                          else if m \<in> {''pkg'', ''proj''} then Returns (ModuleObj True)
                          else RaisesImportError),
     parse_file = (\<lambda>p. if p = Path ''proj/main.py''
                        then Some [OtherNode, Import [''os''], ImportFrom (Some ''pkg'') [''a'', ''b''],
                                   ImportFrom (Some ''proj'') [''util'']]
                        else if p = Path ''proj/util.py'' then Some [Import [''typing'']]
                        else if p = Path ''proj/__init__.py'' then Some []
                        else None),
     getmembers = (\<lambda>m. if m = ''proj.util''
                        then [NotAClass ''helper'', ClassObj ''Base'' ''proj.util'' True,
                              ClassObj ''Impl'' ''proj.util'' False]
                        else []),
     walk = (\<lambda>r. if r = ''proj'' then [(''proj'', [], [''__init__.py'', ''main.py'', ''util.py''])]
                   else []) \<rparr>"

text \<open>The units and the loader after discovery.\<close>

definition demo_init :: unit_rec where
  "demo_init = Component_init\<lparr>name := Some ''proj'', path := Some (Path ''proj/__init__.py'')\<rparr>"

definition demo_main :: unit_rec where
  "demo_main = Component_init\<lparr>name := Some ''proj.main'', path := Some (Path ''proj/main.py'')\<rparr>"

definition demo_util :: unit_rec where
  "demo_util = Component_init\<lparr>name := Some ''proj.util'', path := Some (Path ''proj/util.py'')\<rparr>"

definition demo_found :: loader where
  "demo_found = \<lparr> root_path = Some ''proj'',
     components = [(Some ''proj'', demo_init), (Some ''proj.main'', demo_main),
                   (Some ''proj.util'', demo_util)],
     ignore_dependencies = [''abc'', ''typing''] \<rparr>"

text \<open>After dependency resolution with the built-in ignore set.\<close>

definition demo_main_resolved :: unit_rec where
  "demo_main_resolved = demo_main\<lparr>external_dependencies :=
     [Some ''proj.util'', Some ''os'', Some ''pkg'', Some ''pkg.a'']\<rparr>"

definition demo_util_resolved :: unit_rec where
  "demo_util_resolved = demo_util\<lparr>internal_dependents := [Some ''proj.main'']\<rparr>"

definition demo_resolved :: loader where
  "demo_resolved = demo_found\<lparr>components :=
     [(Some ''proj'', demo_init), (Some ''proj.main'', demo_main_resolved),
      (Some ''proj.util'', demo_util_resolved)]\<rparr>"

text \<open>After dependency resolution with \<open>os\<close> ignored by the caller as well.\<close>

definition demo_main_no_os :: unit_rec where
  "demo_main_no_os = demo_main\<lparr>external_dependencies :=
     [Some ''proj.util'', Some ''pkg'', Some ''pkg.a'']\<rparr>"

definition demo_resolved_no_os :: loader where
  "demo_resolved_no_os = demo_found\<lparr>components :=
     [(Some ''proj'', demo_init), (Some ''proj.main'', demo_main_no_os),
      (Some ''proj.util'', demo_util_resolved)]\<rparr>"

text \<open>After type classification, and after the metrics have been read.\<close>

definition demo_util_classified :: unit_rec where
  "demo_util_classified = demo_util_resolved\<lparr>
     abstract_classes := [ClassObj ''Base'' ''proj.util'' True],
     no_abstract_classes := [ClassObj ''Impl'' ''proj.util'' False]\<rparr>"

definition demo_classified :: loader where
  "demo_classified = demo_resolved\<lparr>components :=
     [(Some ''proj'', demo_init), (Some ''proj.main'', demo_main_resolved),
      (Some ''proj.util'', demo_util_classified)]\<rparr>"

definition demo_measured :: loader where
  "demo_measured = demo_classified\<lparr>components :=
     [(Some ''proj'', demo_init\<lparr>abstraction := Some 0, instability := Some 0, distance := Some 1\<rparr>),
      (Some ''proj.main'',
       demo_main_resolved\<lparr>abstraction := Some 0, instability := Some 1, distance := Some 0\<rparr>),
      (Some ''proj.util'',
       demo_util_classified\<lparr>abstraction := Some (1 / 2), instability := Some 0,
         distance := Some (1 / 2)\<rparr>)]\<rparr>"

definition demo_plane :: "(pyname \<times> as_point) list" where
  "demo_plane =
     [(Some ''proj'', \<lparr>pt_x = Some 0, pt_y = Some 0, pt_d = 1\<rparr>),
      (Some ''proj.main'', \<lparr>pt_x = Some 1, pt_y = Some 0, pt_d = 0\<rparr>),
      (Some ''proj.util'', \<lparr>pt_x = Some 0, pt_y = Some (1 / 2), pt_d = 1 / 2\<rparr>)]"

text \<open>The unit \<open>proj.main\<close> when its instability is read before its dependencies are
  loaded, and the same unit after they have been loaded.\<close>

definition demo_main_read :: unit_rec where
  "demo_main_read = demo_main\<lparr>instability := Some 0\<rparr>"


text \<open>The same project where \<open>os\<close> does not import.\<close>

definition broken_env :: env where
  "broken_env = demo_env\<lparr>import_module :=
     (\<lambda>m. if m = ''os'' then RaisesImportError else import_module demo_env m)\<rparr>"

text \<open>An environment in which \<open>pkg.sub\<close> is a package and \<open>pkg.sub.mod\<close> a module
  of it.\<close>

definition pkg_env :: env where
  "pkg_env = \<lparr>
     import_module = (\<lambda>m. if m \<in> {''pkg'', ''pkg.sub''} then Returns (ModuleObj True)
                          else if m = ''pkg.sub.mod'' then Returns (ModuleObj False)
                          else RaisesImportError),
     parse_file = (\<lambda>p. None),
     getmembers = (\<lambda>m. []),
     walk = (\<lambda>r. []) \<rparr>"

text \<open>A directory with no \<open>__init__.py\<close>: no package, no unit.\<close>

definition empty_env :: env where
  "empty_env = \<lparr>
     import_module = (\<lambda>m. RaisesImportError),
     parse_file = (\<lambda>p. None),
     getmembers = (\<lambda>m. []),
     walk = (\<lambda>r. if r = ''empty'' then [(''empty'', [], [''README.py''])] else []) \<rparr>"

section \<open>Properties\<close>

subsection \<open>Extraction of imports\<close>

lemma resolve_aliases_step:
  assumes "resolve_aliases e m (a # as) acc = Inr modules"
  shows "(resolves e (fmt_name m @ ''.'' @ a) \<and>
            resolve_aliases e m as (List.insert (Some (fmt_name m @ ''.'' @ a)) acc) = Inr modules)
       \<or> (\<not> resolves e (fmt_name m @ ''.'' @ a) \<and> resolve_aliases e m as acc = Inr modules)"
proof (cases "import_module e (fmt_name m @ ''.'' @ a)")
  case (Returns obj)
  with assms show ?thesis
    by (cases "truthy obj") (simp_all add: import_module_guarded_def resolves_def)
next
  case RaisesImportError
  with assms show ?thesis by (simp add: import_module_guarded_def resolves_def)
next
  case RaisesOther
  with assms show ?thesis by (simp add: import_module_guarded_def)
qed

lemma resolve_aliases_set:
  "resolve_aliases e m as acc = Inr modules \<Longrightarrow>
     set modules = set acc \<union> {Some (fmt_name m @ ''.'' @ a) | a. a \<in> set as \<and> resolves e (fmt_name m @ ''.'' @ a)}"
proof (induction as arbitrary: acc)
  case Nil
  then show ?case by simp
next
  case (Cons a as)
  from resolve_aliases_step[OF Cons.prems] show ?case
  proof (elim disjE conjE)
    assume h: "resolves e (fmt_name m @ ''.'' @ a)"
      and r: "resolve_aliases e m as (List.insert (Some (fmt_name m @ ''.'' @ a)) acc) = Inr modules"
    from Cons.IH[OF r] h show ?thesis by auto
  next
    assume h: "\<not> resolves e (fmt_name m @ ''.'' @ a)"
      and r: "resolve_aliases e m as acc = Inr modules"
    from Cons.IH[OF r] h show ?thesis by auto
  qed
qed

lemma resolve_aliases_distinct:
  "resolve_aliases e m as acc = Inr modules \<Longrightarrow> distinct acc \<Longrightarrow> distinct modules"
proof (induction as arbitrary: acc)
  case Nil
  then show ?case by simp
next
  case (Cons a as)
  from resolve_aliases_step[OF Cons.prems(1)] Cons.IH Cons.prems(2) show ?case
    by (metis distinct_insert)
qed

lemma resolve_aliases_length:
  "resolve_aliases e m as acc = Inr modules \<Longrightarrow> length modules \<le> length acc + length as"
proof (induction as arbitrary: acc)
  case Nil
  then show ?case by simp
next
  case (Cons a as)
  have l: "length (List.insert (Some (fmt_name m @ ''.'' @ a)) acc) \<le> Suc (length acc)"
    by (simp add: List.insert_def)
  from resolve_aliases_step[OF Cons.prems] show ?case
  proof (elim disjE conjE)
    assume "resolve_aliases e m as (List.insert (Some (fmt_name m @ ''.'' @ a)) acc) = Inr modules"
    from Cons.IH[OF this] l show ?thesis by simp
  next
    assume "resolve_aliases e m as acc = Inr modules"
    from Cons.IH[OF this] show ?thesis by simp
  qed
qed

lemma resolve_aliases_short:
  "resolve_aliases e m as acc = Inr modules \<Longrightarrow> a \<in> set as \<Longrightarrow>
     \<not> resolves e (fmt_name m @ ''.'' @ a) \<Longrightarrow> length modules < length acc + length as"
proof (induction as arbitrary: acc)
  case Nil
  then show ?case by simp
next
  case (Cons b bs)
  show ?case
  proof (cases "a = b")
    case True
    with Cons.prems resolve_aliases_step[OF Cons.prems(1)]
    have "resolve_aliases e m bs acc = Inr modules" by blast
    from resolve_aliases_length[OF this] show ?thesis by simp
  next
    case False
    with Cons.prems have a: "a \<in> set bs" by simp
    from resolve_aliases_step[OF Cons.prems(1)] consider
      "resolve_aliases e m bs acc = Inr modules"
      | "resolve_aliases e m bs (List.insert (Some (fmt_name m @ ''.'' @ b)) acc) = Inr modules"
      by blast
    then show ?thesis
    proof cases
      case 1
      from Cons.IH[OF 1 a Cons.prems(3)] show ?thesis by simp
    next
      case 2
      have "length (List.insert (Some (fmt_name m @ ''.'' @ b)) acc) \<le> Suc (length acc)"
        by (simp add: List.insert_def)
      with Cons.IH[OF 2 a Cons.prems(3)] show ?thesis by simp
    qed
  qed
qed

lemma fold_insert_set: "set (fold (\<lambda>a s. List.insert (f a) s) xs acc) = f ` set xs \<union> set acc"
  by (induction xs arbitrary: acc) auto

lemma fold_insert_distinct: "distinct acc \<Longrightarrow> distinct (fold (\<lambda>a s. List.insert (f a) s) xs acc)"
  by (induction xs arbitrary: acc) auto

lemma eval_dependency_distinct: "eval_dependency e n = Inr deps \<Longrightarrow> distinct deps"
  by (cases n) (auto simp: fold_insert_distinct Let_def List.union_def
      dest: resolve_aliases_distinct split: sum.splits if_splits)

lemma eval_dependency_import: "eval_dependency e (Import names) = Inr deps \<Longrightarrow> set deps = Some ` set names"
  by (auto simp: fold_insert_set)

lemma eval_dependency_from:
  assumes "eval_dependency e (ImportFrom m names) = Inr deps"
  shows "\<exists>modules. resolve_aliases e m names [] = Inr modules \<and>
           set deps = set modules \<union> (if length modules \<noteq> length names then {m} else {})"
proof (cases "resolve_aliases e m names []")
  case (Inl err)
  with assms show ?thesis by simp
next
  case (Inr modules)
  with assms show ?thesis by (cases "length modules = length names") (auto simp: Let_def)
qed

lemma eval_dependency_from_hit:
  assumes "eval_dependency e (ImportFrom m names) = Inr deps" "a \<in> set names"
    "resolves e (fmt_name m @ ''.'' @ a)"
  shows "Some (fmt_name m @ ''.'' @ a) \<in> set deps"
proof -
  from eval_dependency_from[OF assms(1)] obtain modules
    where r: "resolve_aliases e m names [] = Inr modules" and d: "set modules \<subseteq> set deps"
    by blast
  from resolve_aliases_set[OF r] assms(2,3) d show ?thesis by auto
qed

lemma eval_dependency_from_miss:
  assumes "eval_dependency e (ImportFrom m names) = Inr deps" "a \<in> set names"
    "\<not> resolves e (fmt_name m @ ''.'' @ a)"
  shows "m \<in> set deps"
proof -
  from eval_dependency_from[OF assms(1)] obtain modules
    where r: "resolve_aliases e m names [] = Inr modules"
      and d: "set deps = set modules \<union> (if length modules \<noteq> length names then {m} else {})"
    by blast
  from resolve_aliases_short[OF r assms(2,3)] have "length modules \<noteq> length names" by simp
  with d show ?thesis by simp
qed

lemma eval_dependency_from_sound:
  assumes "eval_dependency e (ImportFrom m names) = Inr deps" "d \<in> set deps"
  shows "d = m \<or> (\<exists>a\<in>set names. d = Some (fmt_name m @ ''.'' @ a) \<and> resolves e (fmt_name m @ ''.'' @ a))"
proof -
  from eval_dependency_from[OF assms(1)] obtain modules
    where r: "resolve_aliases e m names [] = Inr modules"
      and d: "set deps \<subseteq> insert m (set modules)"
    by (auto split: if_splits)
  from resolve_aliases_set[OF r] assms(2) d show ?thesis by auto
qed

lemma collect_imports_set:
  "collect_imports e ns acc = Inr deps \<Longrightarrow>
     set deps = set acc \<union> (\<Union>n\<in>set ns. {d. \<exists>ds. eval_dependency e n = Inr ds \<and> d \<in> set ds})
     \<and> (\<forall>n\<in>set ns. \<exists>ds. eval_dependency e n = Inr ds)"
proof (induction ns arbitrary: acc)
  case Nil
  then show ?case by simp
next
  case (Cons n ns)
  from Cons.prems obtain ds where ds: "eval_dependency e n = Inr ds"
    and rest: "collect_imports e ns (List.union acc ds) = Inr deps"
    by (auto split: sum.splits)
  from Cons.IH[OF rest] ds show ?case by auto
qed

lemma collect_imports_distinct:
  "collect_imports e ns acc = Inr deps \<Longrightarrow> distinct acc \<Longrightarrow> distinct deps"
proof (induction ns arbitrary: acc)
  case Nil
  then show ?case by simp
next
  case (Cons n ns)
  from Cons.prems obtain ds where ds: "eval_dependency e n = Inr ds"
    and rest: "collect_imports e ns (List.union acc ds) = Inr deps"
    by (auto split: sum.splits)
  from eval_dependency_distinct[OF ds] have "distinct (List.union acc ds)" by simp
  from Cons.IH[OF rest this] show ?case .
qed

lemma resolve_aliases_returns:
  "(\<And>x. import_module e x \<noteq> RaisesOther) \<Longrightarrow> \<exists>modules. resolve_aliases e m as acc = Inr modules"
proof (induction as arbitrary: acc)
  case Nil
  show ?case by simp
next
  case (Cons a as)
  from Cons.prems[of "fmt_name m @ ''.'' @ a"]
  obtain r where "import_module_guarded e (fmt_name m @ ''.'' @ a) = Inr r"
    by (cases "import_module e (fmt_name m @ ''.'' @ a)") (simp_all add: import_module_guarded_def)
  with Cons.IH[OF Cons.prems] show ?case by simp
qed

lemma eval_dependency_returns:
  assumes "\<And>x. import_module e x \<noteq> RaisesOther"
  shows "\<exists>deps. eval_dependency e n = Inr deps"
proof (cases n)
  case (Import names)
  then show ?thesis by simp
next
  case (ImportFrom m names)
  from resolve_aliases_returns[OF assms, of m names "[]"]
  obtain modules where "resolve_aliases e m names [] = Inr modules" by blast
  with ImportFrom show ?thesis by (simp add: Let_def)
next
  case OtherNode
  then show ?thesis by simp
qed

lemma collect_imports_returns:
  assumes "\<And>x. import_module e x \<noteq> RaisesOther"
  shows "\<exists>deps. collect_imports e ns acc = Inr deps"
proof (induction ns arbitrary: acc)
  case Nil
  show ?case by simp
next
  case (Cons n ns)
  from eval_dependency_returns[OF assms, of n] obtain ds where "eval_dependency e n = Inr ds"
    by blast
  with Cons.IH[of "List.union acc ds"] show ?case by simp
qed

text \<open>An import that fails with \<open>ImportError\<close> never aborts the extraction: when the source
  can be read and no import raises anything else, \<open>get_dependencies\<close> returns.\<close>

lemma get_dependencies_returns:
  assumes "path self = Some p" "parse_file e p = Some tree"
    and "\<And>x. import_module e x \<noteq> RaisesOther"
  shows "\<exists>deps. get_dependencies e self = Inr deps"
  using collect_imports_returns[OF assms(3), of tree "[]"] assms(1,2)
  by (simp add: get_dependencies_def)

text \<open>
  C1. When \<open>get_dependencies\<close> returns, its result has no duplicate; every name of a plain
  \<open>import\<close> is in it; for every name \<open>Y\<close> of a \<open>from X import ...\<close> it holds \<open>X.Y\<close>
  when \<open>X.Y\<close> imports as a module and the parent \<open>X\<close> otherwise; and it holds nothing else.
\<close>

theorem get_dependencies_records_imports:
  assumes "get_dependencies e self = Inr deps"
  shows "distinct deps
    \<and> (\<exists>p tree. path self = Some p \<and> parse_file e p = Some tree
        \<and> (\<forall>names a. Import names \<in> set tree \<and> a \<in> set names \<longrightarrow> Some a \<in> set deps)
        \<and> (\<forall>m names a. ImportFrom m names \<in> set tree \<and> a \<in> set names \<longrightarrow>
              (if resolves e (fmt_name m @ ''.'' @ a)
               then Some (fmt_name m @ ''.'' @ a) \<in> set deps else m \<in> set deps))
        \<and> (\<forall>d\<in>set deps.
              (\<exists>names a. Import names \<in> set tree \<and> a \<in> set names \<and> d = Some a)
            \<or> (\<exists>m names. ImportFrom m names \<in> set tree \<and>
                  (d = m \<or> (\<exists>a\<in>set names. d = Some (fmt_name m @ ''.'' @ a)
                                \<and> resolves e (fmt_name m @ ''.'' @ a))))))"
proof -
  from assms obtain p tree where p: "path self = Some p" and t: "parse_file e p = Some tree"
    and c: "collect_imports e tree [] = Inr deps"
    by (auto simp: get_dependencies_def split: option.splits)
  from collect_imports_distinct[OF c] have d: "distinct deps" by simp
  from collect_imports_set[OF c]
  have s: "set deps = (\<Union>n\<in>set tree. {d. \<exists>ds. eval_dependency e n = Inr ds \<and> d \<in> set ds})"
    and ok: "\<forall>n\<in>set tree. \<exists>ds. eval_dependency e n = Inr ds"
    by simp_all
  have i: "Some a \<in> set deps" if "Import names \<in> set tree" "a \<in> set names" for names a
  proof -
    from ok that(1) obtain ds where ds: "eval_dependency e (Import names) = Inr ds" by blast
    from eval_dependency_import[OF ds] that(2) have "Some a \<in> set ds" by simp
    with ds that(1) s show ?thesis by blast
  qed
  have f: "if resolves e (fmt_name m @ ''.'' @ a)
           then Some (fmt_name m @ ''.'' @ a) \<in> set deps else m \<in> set deps"
    if "ImportFrom m names \<in> set tree" "a \<in> set names" for m names a
  proof -
    from ok that(1) obtain ds where ds: "eval_dependency e (ImportFrom m names) = Inr ds" by blast
    have sub: "set ds \<subseteq> set deps" using ds that(1) s by blast
    show ?thesis
      using eval_dependency_from_hit[OF ds that(2)] eval_dependency_from_miss[OF ds that(2)] sub
      by auto
  qed
  have snd: "(\<exists>names a. Import names \<in> set tree \<and> a \<in> set names \<and> d = Some a)
            \<or> (\<exists>m names. ImportFrom m names \<in> set tree \<and>
                  (d = m \<or> (\<exists>a\<in>set names. d = Some (fmt_name m @ ''.'' @ a)
                                \<and> resolves e (fmt_name m @ ''.'' @ a))))"
    if "d \<in> set deps" for d
  proof -
    from that s obtain n ds where n: "n \<in> set tree" and ds: "eval_dependency e n = Inr ds"
      and dd: "d \<in> set ds" by blast
    show ?thesis
    proof (cases n)
      case (Import names)
      with eval_dependency_import[of e names ds] ds dd n show ?thesis by auto
    next
      case (ImportFrom m names)
      with eval_dependency_from_sound[of e m names ds d] ds dd n show ?thesis by blast
    next
      case OtherNode
      with ds dd show ?thesis by simp
    qed
  qed
  from p t d i f snd show ?thesis by blast
qed

theorem get_dependencies_records_imports_witness:
  "get_dependencies demo_env demo_main
     = Inr [Some ''pkg.a'', Some ''pkg'', Some ''os'', Some ''proj.util'']
   \<and> distinct [Some ''pkg.a'', Some ''pkg'', Some ''os'', Some ''proj.util'']
   \<and> (\<exists>p tree. path demo_main = Some p \<and> parse_file demo_env p = Some tree)"
proof -
  have h: "get_dependencies demo_env demo_main
     = Inr [Some ''pkg.a'', Some ''pkg'', Some ''os'', Some ''proj.util'']"
    by (simp add: get_dependencies_def demo_env_def demo_main_def Component_init_def
        import_module_guarded_def fmt_name_def List.union_def List.insert_def)
  from get_dependencies_records_imports[OF h] h show ?thesis by blast
qed

subsection \<open>Names and paths\<close>

text \<open>
  C2. The path \<open>pkg/sub/__init__.py\<close> gives the name \<open>pkg.sub\<close> and \<open>pkg/sub/mod.py\<close>
  gives \<open>pkg.sub.mod\<close>; the module name leads back to \<open>pkg/sub/mod.py\<close>, but the package
  name leads to \<open>pkg/sub.py\<close>, since \<open>inspect.ismodule\<close> holds of a package too and the
  \<open>__init__.py\<close> branch is never taken for a module object.
\<close>

theorem package_name_maps_to_module_file:
  "get_name_from_path (Path ''pkg/sub/__init__.py'') = ''pkg.sub''
   \<and> get_name_from_path (Path ''pkg/sub/mod.py'') = ''pkg.sub.mod''
   \<and> get_path_from_name pkg_env ''pkg.sub.mod'' = Inr (Path ''pkg/sub/mod.py'')
   \<and> get_path_from_name pkg_env ''pkg.sub'' = Inr (Path ''pkg/sub.py'')
   \<and> Path ''pkg/sub.py'' \<noteq> Path ''pkg/sub/__init__.py''"
  by (simp add: get_name_from_path_def get_path_from_name_def pkg_env_def Path_def path_str_def
      path_parent_def path_name_def path_stem_def str_replace_def)

text \<open>Whatever the module object, a package or not, the path is the \<open>.py\<close> file.\<close>

lemma get_path_from_name_of_module:
  "import_module e nm = Returns (ModuleObj pkg)
     \<Longrightarrow> get_path_from_name e nm = Inr (Path (str_replace (CHR ''.'') (CHR ''/'') nm @ ''.py''))"
  by (simp add: get_path_from_name_def)

subsection \<open>Loading the dependencies of one unit\<close>

lemma ModuleComponent_name: "ModuleComponent e None m = Inr dep \<Longrightarrow> name dep = m"
  by (auto simp: ModuleComponent_def Let_def split: option.splits if_splits sum.splits)

lemma ModuleComponent_path_ok: "\<exists>c. ModuleComponent e (Some p) None = Inr c \<and> path c = Some p
    \<and> name c = Some (get_name_from_path p) \<and> external_dependencies c = [] \<and> internal_dependents c = []
    \<and> abstract_classes c = [] \<and> no_abstract_classes c = []
    \<and> abstraction c = None \<and> instability c = None \<and> distance c = None"
  by (simp add: ModuleComponent_def name_truthy_def Component_init_def)

lemma add_modules_shape:
  "add_modules e ign ms u = Inr u' \<Longrightarrow>
     \<exists>X. u' = u\<lparr>external_dependencies := X\<rparr>
       \<and> set X = set (external_dependencies u) \<union> {m \<in> set ms. \<not> ignored ign m}"
proof (induction ms arbitrary: u)
  case Nil
  then have "u' = u\<lparr>external_dependencies := external_dependencies u\<rparr>" by simp
  then show ?case by (intro exI[of _ "external_dependencies u"]) simp
next
  case (Cons m ms)
  show ?case
  proof (cases "ignored ign m")
    case True
    with Cons.prems have "add_modules e ign ms u = Inr u'" by simp
    from Cons.IH[OF this] True show ?thesis by auto
  next
    case False
    with Cons.prems obtain dep where d: "ModuleComponent e None m = Inr dep"
      and r: "add_modules e ign ms (add_dependency u dep False) = Inr u'"
      by (auto split: sum.splits)
    from ModuleComponent_name[OF d] have n: "name dep = m" .
    from Cons.IH[OF r] obtain X where
      X: "u' = (add_dependency u dep False)\<lparr>external_dependencies := X\<rparr>"
      and sX: "set X = set (external_dependencies (add_dependency u dep False)) \<union> {m \<in> set ms. \<not> ignored ign m}"
      by blast
    from X have "u' = u\<lparr>external_dependencies := X\<rparr>" by (simp add: add_dependency_def)
    moreover from sX n False
    have "set X = set (external_dependencies u) \<union> {x \<in> set (m # ms). \<not> ignored ign x}"
      by (auto simp: add_dependency_def)
    ultimately show ?thesis by blast
  qed
qed

lemma add_modules_none:
  "\<forall>m\<in>set ms. ignored ign m \<Longrightarrow> add_modules e ign ms u = Inr u"
  by (induction ms arbitrary: u) auto

lemma add_modules_frame:
  "add_modules e ign ms (u\<lparr>internal_dependents := Y\<rparr>)
     = map_sum id (\<lambda>v. v\<lparr>internal_dependents := Y\<rparr>) (add_modules e ign ms u)"
proof (induction ms arbitrary: u)
  case Nil
  then show ?case by simp
next
  case (Cons m ms)
  have "add_dependency (u\<lparr>internal_dependents := Y\<rparr>) dep False
      = (add_dependency u dep False)\<lparr>internal_dependents := Y\<rparr>" for dep
    by (simp add: add_dependency_def)
  with Cons.IH show ?case by (auto split: sum.splits)
qed

lemma get_dependencies_frame:
  "get_dependencies e (u\<lparr>internal_dependents := Y\<rparr>) = get_dependencies e u"
  "get_dependencies e (u\<lparr>external_dependencies := X\<rparr>) = get_dependencies e u"
  by (simp_all add: get_dependencies_def)

lemma load_dependencies_frame:
  "load_dependencies e (u\<lparr>internal_dependents := Y\<rparr>) ign
     = map_sum id (\<lambda>v. v\<lparr>internal_dependents := Y\<rparr>) (load_dependencies e u ign)"
  by (auto simp: load_dependencies_def get_dependencies_frame add_modules_frame split: sum.splits)

lemma load_dependencies_shape:
  "load_dependencies e u ign = Inr u' \<Longrightarrow>
     \<exists>X. u' = u\<lparr>external_dependencies := X\<rparr> \<and> (external_dependencies u \<noteq> [] \<longrightarrow> X = external_dependencies u)"
proof (cases "external_dependencies u = []")
  case False
  assume "load_dependencies e u ign = Inr u'"
  with False have "u' = u" by (simp add: load_dependencies_def)
  then have "u' = u\<lparr>external_dependencies := external_dependencies u\<rparr>" by simp
  then show ?thesis by blast
next
  case True
  assume "load_dependencies e u ign = Inr u'"
  with True obtain deps where "add_modules e ign deps u = Inr u'"
    by (auto simp: load_dependencies_def split: sum.splits)
  from add_modules_shape[OF this] True show ?thesis by blast
qed

lemma load_dependencies_members:
  assumes "load_dependencies e u ign = Inr u'" "external_dependencies u = []"
  shows "\<exists>deps. get_dependencies e u = Inr deps
           \<and> set (external_dependencies u') = {m \<in> set deps. \<not> ignored ign m}"
proof (cases "get_dependencies e u")
  case (Inl err)
  with assms show ?thesis by (simp add: load_dependencies_def)
next
  case (Inr deps)
  with assms have a: "add_modules e ign deps u = Inr u'" by (simp add: load_dependencies_def)
  from add_modules_shape[OF a] obtain X where X: "u' = u\<lparr>external_dependencies := X\<rparr>"
    and sX: "set X = set (external_dependencies u) \<union> {m \<in> set deps. \<not> ignored ign m}"
    by blast
  from X have "external_dependencies u' = X" by simp
  with sX assms(2) have "set (external_dependencies u') = {m \<in> set deps. \<not> ignored ign m}"
    by simp
  with Inr show ?thesis by blast
qed

lemma load_dependencies_idem:
  assumes "load_dependencies e u ign = Inr u'"
  shows "load_dependencies e u' ign = Inr u'"
proof (cases "external_dependencies u' = []")
  case False
  then show ?thesis by (simp add: load_dependencies_def)
next
  case True
  from load_dependencies_shape[OF assms] obtain X where X: "u' = u\<lparr>external_dependencies := X\<rparr>"
    and keep: "external_dependencies u \<noteq> [] \<longrightarrow> X = external_dependencies u" by blast
  from X True have "X = []" by simp
  with keep have e0: "external_dependencies u = []" by auto
  with X \<open>X = []\<close> have same: "u' = u" by simp
  from load_dependencies_members[OF assms e0] obtain deps where g: "get_dependencies e u = Inr deps"
    and s: "set (external_dependencies u') = {m \<in> set deps. \<not> ignored ign m}" by blast
  from s True have "\<forall>m\<in>set deps. ignored ign m" by auto
  from add_modules_none[OF this] g e0 same show ?thesis
    by (simp add: load_dependencies_def)
qed

lemma ignored_cong:
  "set l = set l' \<Longrightarrow> ignored (Some l) m = ignored (Some l') m"
  by (auto simp: ignored_def)

lemma add_modules_cong:
  assumes "\<And>m. ignored ign m = ignored ign' m"
  shows "add_modules e ign ms u = add_modules e ign' ms u"
proof (induction ms arbitrary: u)
  case Nil
  show ?case by simp
next
  case (Cons m ms)
  show ?case
  proof (cases "ignored ign m")
    case True
    with assms[of m] Cons.IH show ?thesis by simp
  next
    case False
    with assms[of m] have "\<not> ignored ign' m" by simp
    with False Cons.IH show ?thesis by (simp split: sum.splits)
  qed
qed

lemma load_dependencies_cong:
  assumes "set l = set l'"
  shows "load_dependencies e u (Some l) = load_dependencies e u (Some l')"
proof -
  have "add_modules e (Some l) ms u = add_modules e (Some l') ms u" for ms
    by (rule add_modules_cong) (rule ignored_cong[OF assms])
  then show ?thesis by (cases "get_dependencies e u") (simp_all add: load_dependencies_def)
qed

subsection \<open>The dependency-resolution pass\<close>

lemma edges_mirroredD:
  "edges_mirrored P cs \<Longrightarrow> a \<in> P \<Longrightarrow> map_of cs a = Some ua \<Longrightarrow> map_of cs b = Some ub \<Longrightarrow>
     b \<in> set (external_dependencies ua) \<Longrightarrow> name ua \<in> set (internal_dependents ub)"
  unfolding edges_mirrored_def by blast

lemma add_dependency_internal_simps:
  "name (add_dependency v c True) = name v"
  "path (add_dependency v c True) = path v"
  "external_dependencies (add_dependency v c True) = external_dependencies v"
  "set (internal_dependents (add_dependency v c True)) = insert (name c) (set (internal_dependents v))"
  "add_dependency (add_dependency v c True) c True = add_dependency v c True"
  "add_dependency v c True = v\<lparr>internal_dependents := List.insert (name c) (internal_dependents v)\<rparr>"
  by (simp_all add: add_dependency_def)

lemma add_dependency_internal_triv:
  "name c \<in> set (internal_dependents v) \<Longrightarrow> add_dependency v c True = v"
  by (simp add: add_dependency_def List.insert_def)

lemma link_dependents_lookup:
  "map_of (link_dependents c deps cs) k
     = map_option (\<lambda>v. if k \<in> set deps then add_dependency v c True else v) (map_of cs k)"
proof (induction deps arbitrary: cs)
  case Nil
  show ?case by (simp add: option.map_ident)
next
  case (Cons dep deps)
  show ?case
  proof (cases "map_of cs dep")
    case None
    then have "link_dependents c (dep # deps) cs = link_dependents c deps cs" by simp
    moreover have "map_of cs k = Some v \<Longrightarrow> k \<noteq> dep" for v using None by auto
    ultimately show ?thesis using Cons.IH[of cs] by (cases "map_of cs k") auto
  next
    case (Some cd)
    let ?cs1 = "AList.update dep (add_dependency cd c True) cs"
    from Some have l: "link_dependents c (dep # deps) cs = link_dependents c deps ?cs1" by simp
    have m: "map_of ?cs1 = (map_of cs)(dep \<mapsto> add_dependency cd c True)"
      by (rule update_conv')
    show ?thesis
    proof (cases "k = dep")
      case True
      with Some m Cons.IH[of ?cs1] l show ?thesis
        by (simp add: add_dependency_internal_simps(5))
    next
      case False
      with m Cons.IH[of ?cs1] l show ?thesis by simp
    qed
  qed
qed

lemma map_of_Some_key: "map_of cs k = Some v \<Longrightarrow> k \<in> set (map fst cs)"
  by (metis domI dom_map_of_conv_image_fst set_map)

lemma update_present_keys: "map_of cs k = Some v \<Longrightarrow> map fst (AList.update k w cs) = map fst cs"
  using map_of_Some_key[of cs k v] by (simp add: update_keys)

lemma link_dependents_keys: "map fst (link_dependents c deps cs) = map fst cs"
proof (induction deps arbitrary: cs)
  case Nil
  show ?case by simp
next
  case (Cons dep deps)
  show ?case
  proof (cases "map_of cs dep")
    case None
    with Cons.IH show ?thesis by simp
  next
    case (Some cd)
    with Cons.IH[of "AList.update dep (add_dependency cd c True) cs"] update_present_keys[OF Some]
    show ?thesis by simp
  qed
qed

lemma link_dependents_triv:
  "(\<And>dep v. dep \<in> set deps \<Longrightarrow> map_of cs dep = Some v \<Longrightarrow> name c \<in> set (internal_dependents v))
     \<Longrightarrow> link_dependents c deps cs = cs"
proof (induction deps)
  case Nil
  show ?case by simp
next
  case (Cons dep deps)
  have rest: "link_dependents c deps cs = cs"
  proof (rule Cons.IH)
    fix dep' v
    assume "dep' \<in> set deps" "map_of cs dep' = Some v"
    then show "name c \<in> set (internal_dependents v)" using Cons.prems[of dep' v] by simp
  qed
  show ?case
  proof (cases "map_of cs dep")
    case None
    with rest show ?thesis by simp
  next
    case (Some cd)
    with Cons.prems[of dep cd] have "add_dependency cd c True = cd"
      by (simp add: add_dependency_internal_triv)
    with Some rest show ?thesis by (simp add: update_triv)
  qed
qed

text \<open>One turn of the outer loop, as a lookup.\<close>

lemma turn_lookup:
  assumes "map_of cs k = Some c"
  shows "map_of (link_dependents c1 deps (AList.update k c1 cs)) x
     = map_option (\<lambda>v. if x \<in> set deps then add_dependency v c1 True else v)
         (if x = k then Some c1 else map_of cs x)"
  by (simp add: link_dependents_lookup update_conv')

lemma turn_keys:
  assumes "map_of cs k = Some c"
  shows "map fst (link_dependents c1 deps (AList.update k c1 cs)) = map fst cs"
  by (simp add: link_dependents_keys update_present_keys[OF assms])

lemma turn_mirrored:
  assumes P: "edges_mirrored P cs" and k: "map_of cs k = Some c"
    and l: "load_dependencies e c ign = Inr c1"
  shows "edges_mirrored (insert k P)
           (link_dependents c1 (external_dependencies c1) (AList.update k c1 cs))"
  unfolding edges_mirrored_def
proof (intro ballI allI impI)
  let ?cs1 = "link_dependents c1 (external_dependencies c1) (AList.update k c1 cs)"
  fix a ua b ub
  assume a: "a \<in> insert k P" and ua: "map_of ?cs1 a = Some ua" and ub: "map_of ?cs1 b = Some ub"
    and e: "b \<in> set (external_dependencies ua)"
  from load_dependencies_shape[OF l] obtain X where "c1 = c\<lparr>external_dependencies := X\<rparr>" by blast
  then have ic: "internal_dependents c1 = internal_dependents c" by simp
  from ua turn_lookup[OF k, of c1 "external_dependencies c1" a]
  obtain va where va: "(if a = k then Some c1 else map_of cs a) = Some va"
    and ua': "ua = (if a \<in> set (external_dependencies c1) then add_dependency va c1 True else va)"
    by (cases "if a = k then Some c1 else map_of cs a") auto
  from ub turn_lookup[OF k, of c1 "external_dependencies c1" b]
  obtain vb where vb: "(if b = k then Some c1 else map_of cs b) = Some vb"
    and ub': "ub = (if b \<in> set (external_dependencies c1) then add_dependency vb c1 True else vb)"
    by (cases "if b = k then Some c1 else map_of cs b") auto
  from ua' have n: "name ua = name va" and x: "external_dependencies ua = external_dependencies va"
    by (simp_all add: add_dependency_internal_simps)
  from ub' have sub: "set (internal_dependents vb) \<subseteq> set (internal_dependents ub)"
    by (auto simp: add_dependency_internal_simps)
  show "name ua \<in> set (internal_dependents ub)"
  proof (cases "a = k")
    case True
    with va have "va = c1" by simp
    with e x ub' n show ?thesis by (simp add: add_dependency_internal_simps)
  next
    case False
    with a va have aP: "a \<in> P" and va0: "map_of cs a = Some va" by simp_all
    show ?thesis
    proof (cases "b = k")
      case True
      with vb have "vb = c1" by simp
      moreover from e x True have "k \<in> set (external_dependencies va)" by simp
      from edges_mirroredD[OF P aP va0 k this] have "name va \<in> set (internal_dependents c)" .
      ultimately show ?thesis using ic n sub by auto
    next
      case False
      with vb have vb0: "map_of cs b = Some vb" by simp
      from e x have "b \<in> set (external_dependencies va)" by simp
      from edges_mirroredD[OF P aP va0 vb0 this] have "name va \<in> set (internal_dependents vb)" .
      with n sub show ?thesis by auto
    qed
  qed
qed

lemma edges_mirrored_absent:
  "edges_mirrored P cs \<Longrightarrow> map_of cs k = None \<Longrightarrow> edges_mirrored (insert k P) cs"
  unfolding edges_mirrored_def by auto

lemma resolve_units_mirrored:
  "resolve_units e ign ks cs = Inr cs' \<Longrightarrow> edges_mirrored P cs \<Longrightarrow> edges_mirrored (P \<union> set ks) cs'"
proof (induction ks arbitrary: cs P)
  case Nil
  then show ?case by simp
next
  case (Cons k ks)
  show ?case
  proof (cases "map_of cs k")
    case None
    with Cons.prems have r: "resolve_units e ign ks cs = Inr cs'" by simp
    from Cons.IH[OF r edges_mirrored_absent[OF Cons.prems(2) None]] show ?thesis by simp
  next
    case (Some c)
    with Cons.prems(1) obtain c1 where l: "load_dependencies e c ign = Inr c1"
      and r: "resolve_units e ign ks
                (link_dependents c1 (external_dependencies c1) (AList.update k c1 cs)) = Inr cs'"
      by (cases "load_dependencies e c ign") simp_all
    from Cons.IH[OF r turn_mirrored[OF Cons.prems(2) Some l]] show ?thesis by simp
  qed
qed

lemma resolve_units_keys:
  "resolve_units e ign ks cs = Inr cs' \<Longrightarrow> map fst cs' = map fst cs"
proof (induction ks arbitrary: cs)
  case Nil
  then show ?case by simp
next
  case (Cons k ks)
  show ?case
  proof (cases "map_of cs k")
    case None
    with Cons show ?thesis by simp
  next
    case (Some c)
    with Cons.prems(1) obtain c1 where l: "load_dependencies e c ign = Inr c1"
      and r: "resolve_units e ign ks
                (link_dependents c1 (external_dependencies c1) (AList.update k c1 cs)) = Inr cs'"
      by (cases "load_dependencies e c ign") simp_all
    from Cons.IH[OF r] turn_keys[OF Some] show ?thesis by simp
  qed
qed

lemma load_dependencies_all_unfold:
  "load_dependencies_all e self h arg =
     (fst (load_dependencies_all e self h arg),
      case resolve_units e (Some (effective_ignore self h arg)) (map fst (components self)) (components self) of
        Inl err \<Rightarrow> Inl err
      | Inr cs \<Rightarrow> Inr (self\<lparr>components := cs\<rparr>))"
  by (simp add: load_dependencies_all_def effective_ignore_def Let_def split: prod.splits)

lemma load_dependencies_all_Inr:
  assumes "load_dependencies_all e self h arg = (h', Inr self')"
  shows "resolve_units e (Some (effective_ignore self h arg)) (map fst (components self)) (components self)
           = Inr (components self')"
    and "self' = self\<lparr>components := components self'\<rparr>"
proof -
  let ?r = "resolve_units e (Some (effective_ignore self h arg)) (map fst (components self)) (components self)"
  from assms load_dependencies_all_unfold[of e self h arg]
  have c: "(case ?r of Inl err \<Rightarrow> Inl err | Inr cs \<Rightarrow> Inr (self\<lparr>components := cs\<rparr>)) = Inr self'"
    by simp
  then obtain cs where r: "?r = Inr cs" and s: "self' = self\<lparr>components := cs\<rparr>"
    by (cases ?r) simp_all
  from s have "components self' = cs" by simp
  with r s show "?r = Inr (components self')" and "self' = self\<lparr>components := components self'\<rparr>"
    by simp_all
qed

lemma effective_ignore_eq:
  assumes "valid_ref h arg"
  shows "effective_ignore self h arg
     = (case arg of None \<Rightarrow> [] | Some r \<Rightarrow> h ! r) @ ignore_dependencies self"
proof (cases arg)
  case None
  then show ?thesis by (simp add: effective_ignore_def ignore_target_def)
next
  case (Some r)
  with assms have "r < length h" by (simp add: valid_ref_def)
  with Some show ?thesis by (simp add: effective_ignore_def ignore_target_def)
qed

lemma turn_names:
  assumes k: "map_of cs k = Some c" and l: "load_dependencies e c ign = Inr c1"
    and n: "\<And>x v. map_of cs x = Some v \<Longrightarrow> name v = x"
    and u: "map_of (link_dependents c1 (external_dependencies c1) (AList.update k c1 cs)) x = Some ux"
  shows "name ux = x"
proof -
  from load_dependencies_shape[OF l] obtain X where "c1 = c\<lparr>external_dependencies := X\<rparr>" by blast
  then have nc: "name c1 = name c" by simp
  from u turn_lookup[OF k, of c1 "external_dependencies c1" x]
  obtain va where va: "(if x = k then Some c1 else map_of cs x) = Some va"
    and ux: "ux = (if x \<in> set (external_dependencies c1) then add_dependency va c1 True else va)"
    by (cases "if x = k then Some c1 else map_of cs x") auto
  from ux have "name ux = name va" by (simp add: add_dependency_internal_simps)
  moreover have "name va = x"
  proof (cases "x = k")
    case True
    with va nc n[OF k] show ?thesis by simp
  next
    case False
    with va n[of x va] show ?thesis by simp
  qed
  ultimately show ?thesis by simp
qed

lemma resolve_units_names:
  "resolve_units e ign ks cs = Inr cs' \<Longrightarrow> (\<And>x v. map_of cs x = Some v \<Longrightarrow> name v = x)
     \<Longrightarrow> map_of cs' x = Some v \<Longrightarrow> name v = x"
proof (induction ks arbitrary: cs)
  case Nil
  then show ?case by simp
next
  case (Cons k ks)
  show ?case
  proof (cases "map_of cs k")
    case None
    with Cons.prems(1) have r: "resolve_units e ign ks cs = Inr cs'" by simp
    from Cons.IH[OF r Cons.prems(2) Cons.prems(3)] show ?thesis by simp
  next
    case (Some c)
    with Cons.prems(1) obtain c1 where l: "load_dependencies e c ign = Inr c1"
      and r: "resolve_units e ign ks
                (link_dependents c1 (external_dependencies c1) (AList.update k c1 cs)) = Inr cs'"
      by (cases "load_dependencies e c ign") simp_all
    show ?thesis
      by (rule Cons.IH[OF r _ Cons.prems(3)]) (rule turn_names[OF Some l Cons.prems(2)])
  qed
qed

lemma names_are_keys_lookup: "names_are_keys cs \<Longrightarrow> map_of cs x = Some v \<Longrightarrow> name v = x"
  by (auto simp: names_are_keys_def list_all_iff dest: map_of_SomeD)

subsection \<open>The small project, evaluated\<close>


lemma demo_main_deps:
  "get_dependencies demo_env demo_main
     = Inr [Some ''pkg.a'', Some ''pkg'', Some ''os'', Some ''proj.util'']"
  by (simp add: get_dependencies_def demo_env_def demo_main_def Component_init_def
      import_module_guarded_def fmt_name_def List.union_def List.insert_def)

lemma demo_util_deps: "get_dependencies demo_env demo_util = Inr [Some ''typing'']"
  by (simp add: get_dependencies_def demo_env_def demo_util_def Component_init_def Path_def
      List.union_def List.insert_def)

lemma demo_init_deps: "get_dependencies demo_env demo_init = Inr []"
  by (simp add: get_dependencies_def demo_env_def demo_init_def Component_init_def Path_def)

lemma demo_imports:
  "ModuleComponent demo_env None (Some ''pkg.a'') = Inr (Component_init\<lparr>name := Some ''pkg.a'', path := Some (Path ''pkg/a.py'')\<rparr>)"
  "ModuleComponent demo_env None (Some ''pkg'') = Inr (Component_init\<lparr>name := Some ''pkg'', path := Some (Path ''pkg.py'')\<rparr>)"
  "ModuleComponent demo_env None (Some ''os'') = Inr (Component_init\<lparr>name := Some ''os'', path := Some (Path ''os.py'')\<rparr>)"
  "ModuleComponent demo_env None (Some ''proj.util'') = Inr (Component_init\<lparr>name := Some ''proj.util'', path := Some (Path ''proj/util.py'')\<rparr>)"
  by (simp_all add: ModuleComponent_def get_path_from_name_def demo_env_def str_replace_def)

lemma demo_fields:
  "external_dependencies demo_init = []" "external_dependencies demo_main = []"
  "external_dependencies demo_util = []" "internal_dependents demo_util = []"
  "name demo_main = Some ''proj.main''"
  by (simp_all add: demo_init_def demo_main_def demo_util_def Component_init_def)

lemma demo_load_main:
  "load_dependencies demo_env demo_main (Some [''abc'', ''typing'']) = Inr demo_main_resolved"
  by (simp add: load_dependencies_def demo_main_deps demo_imports ignored_def add_dependency_def
      demo_main_resolved_def List.insert_def demo_fields Component_init_def)

lemma demo_load_util:
  "load_dependencies demo_env demo_util (Some [''abc'', ''typing'']) = Inr demo_util"
  by (simp add: load_dependencies_def demo_util_deps ignored_def demo_fields)

lemma demo_load_init:
  "load_dependencies demo_env demo_init (Some [''abc'', ''typing'']) = Inr demo_init"
  by (simp add: load_dependencies_def demo_init_deps demo_fields)

lemma demo_resolution:
  "load_dependencies_all demo_env demo_found [] None = ([[''abc'', ''typing'']], Inr demo_resolved)"
  by (simp add: load_dependencies_all_def ignore_target_def demo_found_def demo_resolved_def
      demo_load_init demo_load_main demo_load_util add_dependency_def demo_fields
      demo_main_resolved_def demo_util_resolved_def List.insert_def load_dependencies_frame)

text \<open>
  C3. After the dependency-resolution pass has returned, for any two units \<open>A\<close> and
  \<open>B\<close> of the mapping: when \<open>B\<close>'s key is in \<open>A\<close>'s outgoing set, \<open>A\<close>'s name is in
  \<open>B\<close>'s incoming set; and it is \<open>A\<close>'s key when every unit was stored under its name,
  as discovery stores it.
\<close>

theorem load_dependencies_all_symmetric:
  assumes "load_dependencies_all e self h arg = (h', Inr self')"
    and "map_of (components self') a = Some ua" and "map_of (components self') b = Some ub"
    and "b \<in> set (external_dependencies ua)"
  shows "name ua \<in> set (internal_dependents ub)
       \<and> (names_are_keys (components self) \<longrightarrow> a \<in> set (internal_dependents ub))"
proof -
  let ?ign = "Some (effective_ignore self h arg)"
  from load_dependencies_all_Inr(1)[OF assms(1)]
  have r: "resolve_units e ?ign (map fst (components self)) (components self) = Inr (components self')" .
  have "edges_mirrored {} (components self)" by (simp add: edges_mirrored_def)
  from resolve_units_mirrored[OF r this]
  have m: "edges_mirrored (set (map fst (components self))) (components self')" by simp
  from map_of_Some_key[OF assms(2)] resolve_units_keys[OF r]
  have "a \<in> set (map fst (components self))" by simp
  from edges_mirroredD[OF m this assms(2) assms(3) assms(4)]
  have 1: "name ua \<in> set (internal_dependents ub)" .
  have 2: "a \<in> set (internal_dependents ub)" if k: "names_are_keys (components self)"
  proof -
    have "name ua = a"
      by (rule resolve_units_names[OF r names_are_keys_lookup[OF k] assms(2)])
    with 1 show ?thesis by simp
  qed
  from 1 2 show ?thesis by blast
qed

theorem load_dependencies_all_symmetric_witness:
  "load_dependencies_all demo_env demo_found [] None = ([[''abc'', ''typing'']], Inr demo_resolved)
   \<and> map_of (components demo_resolved) (Some ''proj.main'') = Some demo_main_resolved
   \<and> map_of (components demo_resolved) (Some ''proj.util'') = Some demo_util_resolved
   \<and> Some ''proj.util'' \<in> set (external_dependencies demo_main_resolved)
   \<and> names_are_keys (components demo_found)
   \<and> Some ''proj.main'' \<in> set (internal_dependents demo_util_resolved)"
proof -
  have a: "map_of (components demo_resolved) (Some ''proj.main'') = Some demo_main_resolved"
    and b: "map_of (components demo_resolved) (Some ''proj.util'') = Some demo_util_resolved"
    by (simp_all add: demo_resolved_def)
  have x: "Some ''proj.util'' \<in> set (external_dependencies demo_main_resolved)"
    by (simp add: demo_main_resolved_def)
  have k: "names_are_keys (components demo_found)"
    by (simp add: names_are_keys_def demo_found_def demo_init_def demo_main_def demo_util_def
        Component_init_def)
  from load_dependencies_all_symmetric[OF demo_resolution a b x] k
  have "Some ''proj.main'' \<in> set (internal_dependents demo_util_resolved)" by blast
  with demo_resolution a b x k show ?thesis by blast
qed

subsection \<open>Idempotence of the passes\<close>

lemma loadedD: "loaded P e ign cs \<Longrightarrow> a \<in> P \<Longrightarrow> map_of cs a = Some ua \<Longrightarrow> load_dependencies e ua ign = Inr ua"
  unfolding loaded_def by blast

lemma load_dependencies_marked:
  assumes "load_dependencies e v ign = Inr v"
  shows "load_dependencies e (add_dependency v c True) ign = Inr (add_dependency v c True)"
  using assms by (simp add: add_dependency_internal_simps(6) load_dependencies_frame)

lemma turn_loaded:
  assumes P: "loaded P e ign cs" and k: "map_of cs k = Some c"
    and l: "load_dependencies e c ign = Inr c1"
  shows "loaded (insert k P) e ign
           (link_dependents c1 (external_dependencies c1) (AList.update k c1 cs))"
  unfolding loaded_def
proof (intro ballI allI impI)
  let ?cs1 = "link_dependents c1 (external_dependencies c1) (AList.update k c1 cs)"
  fix a ua
  assume a: "a \<in> insert k P" and ua: "map_of ?cs1 a = Some ua"
  from ua turn_lookup[OF k, of c1 "external_dependencies c1" a]
  obtain va where va: "(if a = k then Some c1 else map_of cs a) = Some va"
    and ua': "ua = (if a \<in> set (external_dependencies c1) then add_dependency va c1 True else va)"
    by (cases "if a = k then Some c1 else map_of cs a") auto
  have "load_dependencies e va ign = Inr va"
  proof (cases "a = k")
    case True
    with va have "va = c1" by simp
    with load_dependencies_idem[OF l] show ?thesis by simp
  next
    case False
    with a va have "a \<in> P" "map_of cs a = Some va" by simp_all
    from loadedD[OF P this] show ?thesis .
  qed
  with ua' show "load_dependencies e ua ign = Inr ua"
    by (simp add: load_dependencies_marked)
qed

lemma loaded_absent: "loaded P e ign cs \<Longrightarrow> map_of cs k = None \<Longrightarrow> loaded (insert k P) e ign cs"
  unfolding loaded_def by auto

lemma resolve_units_loaded:
  "resolve_units e ign ks cs = Inr cs' \<Longrightarrow> loaded P e ign cs \<Longrightarrow> loaded (P \<union> set ks) e ign cs'"
proof (induction ks arbitrary: cs P)
  case Nil
  then show ?case by simp
next
  case (Cons k ks)
  show ?case
  proof (cases "map_of cs k")
    case None
    with Cons.prems have r: "resolve_units e ign ks cs = Inr cs'" by simp
    from Cons.IH[OF r loaded_absent[OF Cons.prems(2) None]] show ?thesis by simp
  next
    case (Some c)
    with Cons.prems(1) obtain c1 where l: "load_dependencies e c ign = Inr c1"
      and r: "resolve_units e ign ks
                (link_dependents c1 (external_dependencies c1) (AList.update k c1 cs)) = Inr cs'"
      by (cases "load_dependencies e c ign") simp_all
    from Cons.IH[OF r turn_loaded[OF Cons.prems(2) Some l]] show ?thesis by simp
  qed
qed

lemma resolve_units_settled:
  assumes l: "loaded (set (map fst cs)) e ign cs" and m: "edges_mirrored (set (map fst cs)) cs"
  shows "resolve_units e ign ks cs = Inr cs"
proof (induction ks)
  case Nil
  show ?case by simp
next
  case (Cons k ks)
  show ?case
  proof (cases "map_of cs k")
    case None
    with Cons.IH show ?thesis by simp
  next
    case (Some c)
    from map_of_Some_key[OF Some] have kk: "k \<in> set (map fst cs)" .
    from loadedD[OF l kk Some] have lc: "load_dependencies e c ign = Inr c" .
    have "link_dependents c (external_dependencies c) cs = cs"
    proof (rule link_dependents_triv)
      fix dep v
      assume "dep \<in> set (external_dependencies c)" "map_of cs dep = Some v"
      with edges_mirroredD[OF m kk Some] show "name c \<in> set (internal_dependents v)" by blast
    qed
    with Some lc Cons.IH show ?thesis by (simp add: update_triv)
  qed
qed

lemma resolve_units_idem:
  assumes "resolve_units e ign (map fst cs) cs = Inr cs'"
  shows "resolve_units e ign (map fst cs') cs' = Inr cs'"
proof -
  have k: "map fst cs' = map fst cs" by (rule resolve_units_keys[OF assms])
  have "loaded {} e ign cs" by (simp add: loaded_def)
  from resolve_units_loaded[OF assms this] k have l: "loaded (set (map fst cs')) e ign cs'" by simp
  have "edges_mirrored {} cs" by (simp add: edges_mirrored_def)
  from resolve_units_mirrored[OF assms this] k have m: "edges_mirrored (set (map fst cs')) cs'" by simp
  from resolve_units_settled[OF l m] show ?thesis .
qed

lemma resolve_units_cong:
  assumes "set l = set l'"
  shows "resolve_units e (Some l) ks cs = resolve_units e (Some l') ks cs"
proof (induction ks arbitrary: cs)
  case Nil
  show ?case by simp
next
  case (Cons k ks)
  show ?case
    by (cases "map_of cs k")
       (simp_all add: Cons.IH load_dependencies_cong[OF assms] split: sum.splits)
qed

lemma add_class_grows:
  "length (abstract_classes self) \<le> length (abstract_classes (add_class self c ab))"
  "length (no_abstract_classes self) \<le> length (no_abstract_classes (add_class self c ab))"
  "length (abstract_classes (add_class self c ab)) + length (no_abstract_classes (add_class self c ab)) > 0"
  "external_dependencies (add_class self c ab) = external_dependencies self"
  by (simp_all add: add_class_def)

lemma depend_of_classes:
  "depend_of (add_class self c ab) md = depend_of self md"
  by (simp add: depend_of_def add_class_def)

lemma add_members_grows:
  "length (abstract_classes self) \<le> length (abstract_classes (add_members ms self))
   \<and> length (no_abstract_classes self) \<le> length (no_abstract_classes (add_members ms self))"
proof (induction ms self rule: add_members.induct)
  case (1 self)
  show ?case by simp
next
  case (2 n md ab ms self)
  show ?case
  proof (cases "depend_of self md")
    case True
    with 2 show ?thesis by simp
  next
    case False
    with 2(1) add_class_grows(1,2)[of self "ClassObj n md ab" ab] show ?thesis
      by simp
  qed
next
  case (3 n ms self)
  then show ?case by simp
qed

lemma add_members_none:
  "abstract_classes (add_members ms self) = [] \<Longrightarrow> no_abstract_classes (add_members ms self) = []
     \<Longrightarrow> add_members ms self = self"
proof (induction ms self rule: add_members.induct)
  case (1 self)
  show ?case by simp
next
  case (2 n md ab ms self)
  show ?case
  proof (cases "depend_of self md")
    case True
    with 2 show ?thesis by simp
  next
    case False
    let ?s = "add_class self (ClassObj n md ab) ab"
    from False have e: "add_members (ClassObj n md ab # ms) self = add_members ms ?s" by simp
    from add_members_grows[of ?s ms] 2(3,4) e
    have "length (abstract_classes ?s) + length (no_abstract_classes ?s) = 0" by simp
    with add_class_grows(3)[of self "ClassObj n md ab" ab] show ?thesis by simp
  qed
next
  case (3 n ms self)
  then show ?case by simp
qed

lemma load_classes_idem:
  assumes "load_classes e self = Inr s1"
  shows "load_classes e s1 = Inr s1"
proof (cases "no_abstract_classes s1 \<noteq> [] \<or> abstract_classes s1 \<noteq> []")
  case True
  then show ?thesis by (simp add: load_classes_def)
next
  case False
  then have z: "abstract_classes s1 = []" "no_abstract_classes s1 = []" by simp_all
  show ?thesis
  proof (cases "no_abstract_classes self \<noteq> [] \<or> abstract_classes self \<noteq> []")
    case True
    with assms have "s1 = self" by (simp add: load_classes_def)
    with assms show ?thesis by simp
  next
    case False
    with assms obtain n obj where n: "name self = Some n" and i: "import_module e n = Returns obj"
      and s: "s1 = add_members (getmembers e n) self"
      by (auto simp: load_classes_def split: option.splits import_outcome.splits)
    from add_members_none[of "getmembers e n" self] z s have "s1 = self" by simp
    with assms show ?thesis by simp
  qed
qed

lemma load_classes_each_idem:
  "load_classes_each e cs = Inr cs1 \<Longrightarrow> load_classes_each e cs1 = Inr cs1"
proof (induction cs arbitrary: cs1)
  case Nil
  then show ?case by simp
next
  case (Cons kc rest)
  obtain k c where kc: "kc = (k, c)" by (cases kc)
  from Cons.prems kc obtain c1 rest1 where c1: "load_classes e c = Inr c1"
    and r: "load_classes_each e rest = Inr rest1" and cs1: "cs1 = (k, c1) # rest1"
    by (auto split: sum.splits)
  from load_classes_idem[OF c1] Cons.IH[OF r] cs1 show ?case by simp
qed

lemma load_classes_all_idem:
  assumes "load_classes_all e self = Inr s1"
  shows "load_classes_all e s1 = Inr s1"
proof -
  from assms obtain cs where c: "load_classes_each e (components self) = Inr cs"
    and s: "s1 = self\<lparr>components := cs\<rparr>"
    by (auto simp: load_classes_all_def split: sum.splits)
  from load_classes_each_idem[OF c] s show ?thesis by (simp add: load_classes_all_def)
qed

lemma ignore_target_again:
  assumes "valid_ref h arg"
  shows "valid_ref (fst (load_dependencies_all e self h arg)) arg
    \<and> set (effective_ignore self (fst (load_dependencies_all e self h arg)) arg)
        = set (effective_ignore self h arg)"
proof (cases arg)
  case None
  then show ?thesis
    by (simp add: valid_ref_def effective_ignore_def ignore_target_def load_dependencies_all_def
        nth_append)
next
  case (Some r)
  with assms have r: "r < length h" by (simp add: valid_ref_def)
  show ?thesis
  proof (cases "h ! r = []")
    case True
    with Some r show ?thesis
      by (simp add: valid_ref_def effective_ignore_def ignore_target_def load_dependencies_all_def
          nth_append)
  next
    case False
    with Some r show ?thesis
      by (auto simp: valid_ref_def effective_ignore_def ignore_target_def load_dependencies_all_def)
  qed
qed

text \<open>
  C4. Each pass is idempotent. When the dependency-resolution pass has returned a loader,
  running it again on that loader, with the same argument in the store the first run
  left, returns the same loader; when the type-classification pass has returned a loader,
  running it again returns the same loader; and so for the two loading methods of a single
  unit. The states are equal as a whole, so every metric computed from them is equal too.
\<close>

theorem passes_idempotent:
  "(valid_ref h arg \<and> load_dependencies_all e self h arg = (h1, Inr s1)
      \<longrightarrow> snd (load_dependencies_all e s1 h1 arg) = Inr s1)
   \<and> (load_classes_all e t = Inr t1 \<longrightarrow> load_classes_all e t1 = Inr t1)
   \<and> (load_dependencies e c ign = Inr c1 \<longrightarrow> load_dependencies e c1 ign = Inr c1)
   \<and> (load_classes e u = Inr u1 \<longrightarrow> load_classes e u1 = Inr u1)"
proof (intro conjI impI)
  assume a: "valid_ref h arg \<and> load_dependencies_all e self h arg = (h1, Inr s1)"
  then have v: "valid_ref h arg" and l: "load_dependencies_all e self h arg = (h1, Inr s1)"
    by simp_all
  let ?ign = "effective_ignore self h arg"
  from load_dependencies_all_Inr[OF l]
  have r: "resolve_units e (Some ?ign) (map fst (components self)) (components self)
             = Inr (components s1)"
    and s: "s1 = self\<lparr>components := components s1\<rparr>" by simp_all
  from s have i: "ignore_dependencies s1 = ignore_dependencies self"
    by (metis loader.select_convs(3) loader.surjective loader.update_convs(2))
  from ignore_target_again[OF v, where e = e and self = self] l
  have "set (effective_ignore self h1 arg) = set ?ign" by simp
  moreover have "effective_ignore s1 h1 arg = effective_ignore self h1 arg"
    by (simp add: effective_ignore_def i)
  ultimately have c: "set (effective_ignore s1 h1 arg) = set ?ign" by simp
  from resolve_units_idem[OF r]
  have "resolve_units e (Some ?ign) (map fst (components s1)) (components s1) = Inr (components s1)" .
  with resolve_units_cong[OF c]
  have "resolve_units e (Some (effective_ignore s1 h1 arg)) (map fst (components s1)) (components s1)
          = Inr (components s1)" by simp
  then have "snd (load_dependencies_all e s1 h1 arg) = Inr (s1\<lparr>components := components s1\<rparr>)"
    by (subst load_dependencies_all_unfold) simp
  then show "snd (load_dependencies_all e s1 h1 arg) = Inr s1" by simp
next
  assume "load_classes_all e t = Inr t1"
  then show "load_classes_all e t1 = Inr t1" by (rule load_classes_all_idem)
next
  assume "load_dependencies e c ign = Inr c1"
  then show "load_dependencies e c1 ign = Inr c1" by (rule load_dependencies_idem)
next
  assume "load_classes e u = Inr u1"
  then show "load_classes e u1 = Inr u1" by (rule load_classes_idem)
qed

lemma demo_class_fields:
  "abstract_classes demo_init = []" "no_abstract_classes demo_init = []" "name demo_init = Some ''proj''"
  "abstract_classes demo_main_resolved = []" "no_abstract_classes demo_main_resolved = []"
  "name demo_main_resolved = Some ''proj.main''"
  "abstract_classes demo_util_resolved = []" "no_abstract_classes demo_util_resolved = []"
  "name demo_util_resolved = Some ''proj.util''" "external_dependencies demo_util_resolved = []"
  by (simp_all add: demo_init_def demo_main_resolved_def demo_main_def demo_util_resolved_def
      demo_util_def Component_init_def)

lemma demo_load_classes:
  "load_classes demo_env demo_init = Inr demo_init"
  "load_classes demo_env demo_main_resolved = Inr demo_main_resolved"
  "load_classes demo_env demo_util_resolved = Inr demo_util_classified"
  by (simp_all add: load_classes_def demo_class_fields demo_env_def depend_of_def add_class_def
      demo_util_classified_def)

lemma demo_classification: "load_classes_all demo_env demo_resolved = Inr demo_classified"
  by (simp add: load_classes_all_def demo_resolved_def demo_load_classes demo_classified_def)

theorem passes_idempotent_witness:
  "valid_ref [] None
   \<and> load_dependencies_all demo_env demo_found [] None = ([[''abc'', ''typing'']], Inr demo_resolved)
   \<and> snd (load_dependencies_all demo_env demo_resolved [[''abc'', ''typing'']] None) = Inr demo_resolved
   \<and> load_classes_all demo_env demo_resolved = Inr demo_classified
   \<and> load_classes_all demo_env demo_classified = Inr demo_classified
   \<and> load_dependencies demo_env demo_main (Some [''abc'', ''typing'']) = Inr demo_main_resolved
   \<and> load_dependencies demo_env demo_main_resolved (Some [''abc'', ''typing'']) = Inr demo_main_resolved
   \<and> load_classes demo_env demo_util_resolved = Inr demo_util_classified
   \<and> load_classes demo_env demo_util_classified = Inr demo_util_classified"
proof -
  have v: "valid_ref [] None" by (simp add: valid_ref_def)
  from passes_idempotent[where h = "[]" and arg = None and e = demo_env and self = demo_found
      and ?h1.0 = "[[''abc'', ''typing'']]" and ?s1.0 = demo_resolved and t = demo_resolved and ?t1.0 = demo_classified
      and c = demo_main and ign = "Some [''abc'', ''typing'']" and ?c1.0 = demo_main_resolved
      and u = demo_util_resolved and ?u1.0 = demo_util_classified]
    v demo_resolution demo_classification demo_load_main demo_load_classes(3)
  show ?thesis by blast
qed

subsection \<open>Dependencies that do not import\<close>

lemma ModuleComponent_raises:
  assumes "m \<noteq> []" "\<forall>obj. import_module e m \<noteq> Returns obj"
  shows "\<exists>err. ModuleComponent e None (Some m) = Inl err"
proof (cases "import_module e m")
  case (Returns obj)
  with assms(2) show ?thesis by simp
next
  case RaisesImportError
  with assms(1) show ?thesis by (simp add: ModuleComponent_def get_path_from_name_def)
next
  case RaisesOther
  with assms(1) show ?thesis by (simp add: ModuleComponent_def get_path_from_name_def)
qed

lemma add_modules_raises:
  "m \<in> set ms \<Longrightarrow> \<not> ignored ign m \<Longrightarrow> ModuleComponent e None m = Inl err0
     \<Longrightarrow> \<exists>err. add_modules e ign ms u = Inl err"
proof (induction ms arbitrary: u)
  case Nil
  then show ?case by simp
next
  case (Cons x xs)
  show ?case
  proof (cases "x = m")
    case True
    with Cons.prems show ?thesis by simp
  next
    case False
    with Cons.prems have m: "m \<in> set xs" by simp
    show ?thesis
    proof (cases "ignored ign x")
      case True
      with Cons.IH[OF m Cons.prems(2,3)] show ?thesis by simp
    next
      case False
      show ?thesis
      proof (cases "ModuleComponent e None x")
        case (Inl a)
        with False show ?thesis by simp
      next
        case (Inr dep)
        with False Cons.IH[OF m Cons.prems(2,3), of "add_dependency u dep False"]
        show ?thesis by simp
      qed
    qed
  qed
qed

lemma resolve_units_raises:
  "k \<in> set ks \<Longrightarrow> map_of cs k = Some c \<Longrightarrow> load_dependencies e c ign = Inl err0
     \<Longrightarrow> \<exists>err. resolve_units e ign ks cs = Inl err"
proof (induction ks arbitrary: cs c)
  case Nil
  then show ?case by simp
next
  case (Cons x xs)
  show ?case
  proof (cases "x = k")
    case True
    with Cons.prems show ?thesis by simp
  next
    case False
    with Cons.prems have k: "k \<in> set xs" by simp
    show ?thesis
    proof (cases "map_of cs x")
      case None
      with Cons.IH[OF k Cons.prems(2,3)] show ?thesis by simp
    next
      case (Some cx)
      show ?thesis
      proof (cases "load_dependencies e cx ign")
        case (Inl a)
        with Some show ?thesis by simp
      next
        case (Inr c1)
        let ?cs1 = "link_dependents c1 (external_dependencies c1) (AList.update x c1 cs)"
        from turn_lookup[OF Some, of c1 "external_dependencies c1" k] False Cons.prems(2)
        have "map_of ?cs1 k
            = Some (if k \<in> set (external_dependencies c1) then add_dependency c c1 True else c)"
          by simp
        moreover have "load_dependencies e
            (if k \<in> set (external_dependencies c1) then add_dependency c c1 True else c) ign = Inl err0"
          using Cons.prems(3)
          by (simp add: add_dependency_internal_simps(6) load_dependencies_frame)
        ultimately have "\<exists>err. resolve_units e ign xs ?cs1 = Inl err"
          by (rule Cons.IH[OF k])
        with Some Inr show ?thesis by simp
      qed
    qed
  qed
qed

text \<open>
  C9. A unit created from a bare name imports that name with no guard: when a unit of the
  mapping has no outgoing edge yet and its source yields a non-empty name \<open>m\<close> that is not
  on the merged ignore list and that \<open>import_module\<close> does not return for, creating the
  placeholder raises, \<open>load_dependencies\<close> of that unit raises, and the whole
  dependency-resolution pass raises.
\<close>

theorem unimportable_dependency_aborts:
  assumes "map_of (components self) k = Some c"
    and "external_dependencies c = []"
    and "get_dependencies e c = Inr deps"
    and "Some m \<in> set deps" and "m \<noteq> []"
    and "m \<notin> set (effective_ignore self h arg)"
    and "\<forall>obj. import_module e m \<noteq> Returns obj"
  shows "(\<exists>err. ModuleComponent e None (Some m) = Inl err)
       \<and> (\<exists>err. load_dependencies e c (Some (effective_ignore self h arg)) = Inl err)
       \<and> (\<exists>err. snd (load_dependencies_all e self h arg) = Inl err)"
proof -
  let ?ign = "Some (effective_ignore self h arg)"
  from ModuleComponent_raises[OF assms(5,7)]
  obtain err0 where 1: "ModuleComponent e None (Some m) = Inl err0" by blast
  from assms(6) have n: "\<not> ignored ?ign (Some m)" by (auto simp: ignored_def)
  from add_modules_raises[OF assms(4) n 1, of c] assms(2,3)
  obtain err1 where 2: "load_dependencies e c ?ign = Inl err1"
    by (auto simp: load_dependencies_def)
  from resolve_units_raises[OF map_of_Some_key[OF assms(1)] assms(1) 2]
  obtain err2 where "resolve_units e ?ign (map fst (components self)) (components self) = Inl err2"
    by blast
  then have 3: "snd (load_dependencies_all e self h arg) = Inl err2"
    by (subst load_dependencies_all_unfold) simp
  from 1 2 3 show ?thesis by blast
qed

lemma broken_main_deps:
  "get_dependencies broken_env demo_main
     = Inr [Some ''pkg.a'', Some ''pkg'', Some ''os'', Some ''proj.util'']"
  by (simp add: get_dependencies_def broken_env_def demo_env_def demo_main_def Component_init_def
      import_module_guarded_def fmt_name_def List.union_def List.insert_def)

theorem unimportable_dependency_aborts_witness:
  "map_of (components demo_found) (Some ''proj.main'') = Some demo_main
   \<and> external_dependencies demo_main = []
   \<and> get_dependencies broken_env demo_main
        = Inr [Some ''pkg.a'', Some ''pkg'', Some ''os'', Some ''proj.util'']
   \<and> ''os'' \<notin> set (effective_ignore demo_found [] None)
   \<and> (\<forall>obj. import_module broken_env ''os'' \<noteq> Returns obj)
   \<and> (\<exists>err. ModuleComponent broken_env None (Some ''os'') = Inl err)
   \<and> (\<exists>err. load_dependencies broken_env demo_main (Some (effective_ignore demo_found [] None)) = Inl err)
   \<and> (\<exists>err. snd (load_dependencies_all broken_env demo_found [] None) = Inl err)"
proof -
  have a: "map_of (components demo_found) (Some ''proj.main'') = Some demo_main"
    by (simp add: demo_found_def)
  have b: "external_dependencies demo_main = []" by (simp add: demo_fields)
  have d: "Some ''os'' \<in> set [Some ''pkg.a'', Some ''pkg'', Some ''os'', Some ''proj.util'']"
    and n: "''os'' \<noteq> []" by simp_all
  have i: "''os'' \<notin> set (effective_ignore demo_found [] None)"
    by (simp add: effective_ignore_def ignore_target_def demo_found_def)
  have r: "\<forall>obj. import_module broken_env ''os'' \<noteq> Returns obj" by (simp add: broken_env_def)
  from unimportable_dependency_aborts[OF a b broken_main_deps d n i r] a b broken_main_deps i r
  show ?thesis by blast
qed

subsection \<open>The caller's ignore list\<close>

lemma store_modules_returns: "\<exists>cs1. store_modules e ms cs = Inr cs1"
proof (induction ms arbitrary: cs)
  case Nil
  show ?case by simp
next
  case (Cons m ms)
  from ModuleComponent_path_ok[of e m] obtain c where "ModuleComponent e (Some m) None = Inr c"
    by blast
  with Cons.IH[of "AList.update (name c) c cs"] show ?case by simp
qed

lemma load_components_of_returns:
  "\<exists>s1. load_components_of e self r = Inr s1 \<and> ignore_dependencies s1 = ignore_dependencies self"
proof -
  from store_modules_returns[of e "get_py_modules e r" "components self"]
  obtain cs1 where "store_modules e (get_py_modules e r) (components self) = Inr cs1" by blast
  then show ?thesis by (simp add: load_components_of_def)
qed

lemma load_dependencies_all_store:
  "fst (load_dependencies_all e self h arg)
     = (let (h1, r) = ignore_target h arg in h1[r := h1 ! r @ ignore_dependencies self])"
  by (simp add: load_dependencies_all_def Let_def split: prod.splits)

lemma load_components_store:
  assumes "(if name_truthy rp then rp else root_path self) = Some r"
  shows "fst (load_components e self rp h arg)
     = (let (h1, r) = ignore_target h arg in h1[r := h1 ! r @ ignore_dependencies self])"
proof -
  from load_components_of_returns[of e self r] obtain s1
    where s: "load_components_of e self r = Inr s1"
      and i: "ignore_dependencies s1 = ignore_dependencies self" by blast
  obtain h1 res where l: "load_dependencies_all e s1 h arg = (h1, res)"
    by (cases "load_dependencies_all e s1 h arg")
  from l have "h1 = fst (load_dependencies_all e s1 h arg)" by simp
  with i have h1: "h1 = (let (h1, r) = ignore_target h arg in h1[r := h1 ! r @ ignore_dependencies self])"
    by (simp add: load_dependencies_all_store)
  from assms s l have "fst (load_components e self rp h arg) = h1"
    by (cases res) (simp_all add: load_components_def)
  with h1 show ?thesis by simp
qed

text \<open>
  C10, as the code has it. When the caller passes a reference to a non-empty list,
  \<open>_load_dependencies\<close> extends that very list by the loader's ignore set and touches no
  other list, and so does \<open>load_components\<close> once it has a root path; a loader made by
  \<open>ModuleComponentLoader\<close> has the ignore set \<open>abc\<close>, \<open>typing\<close>.
\<close>

theorem nonempty_ignore_list_extended:
  assumes "r < length h" and "h ! r \<noteq> []"
  shows "fst (load_dependencies_all e self h (Some r)) = h[r := h ! r @ ignore_dependencies self]
       \<and> fst (load_dependencies_all e self h (Some r)) ! r = h ! r @ ignore_dependencies self
       \<and> ((if name_truthy rp then rp else root_path self) \<noteq> None \<longrightarrow>
            fst (load_components e self rp h (Some r)) = h[r := h ! r @ ignore_dependencies self])
       \<and> ignore_dependencies (ModuleComponentLoader rp0) = [''abc'', ''typing'']"
proof -
  from assms(2) have t: "ignore_target h (Some r) = (h, r)" by (simp add: ignore_target_def)
  then have 1: "fst (load_dependencies_all e self h (Some r)) = h[r := h ! r @ ignore_dependencies self]"
    by (simp add: load_dependencies_all_store)
  with assms(1) have 2: "fst (load_dependencies_all e self h (Some r)) ! r = h ! r @ ignore_dependencies self"
    by simp
  have 3: "fst (load_components e self rp h (Some r)) = h[r := h ! r @ ignore_dependencies self]"
    if "(if name_truthy rp then rp else root_path self) \<noteq> None"
  proof -
    from that obtain rt where "(if name_truthy rp then rp else root_path self) = Some rt" by blast
    from load_components_store[OF this] t show ?thesis by simp
  qed
  have 4: "ignore_dependencies (ModuleComponentLoader rp0) = [''abc'', ''typing'']"
    by (simp add: ModuleComponentLoader_def ignore_native_library_def ignore_deps_def
        ComponentLoader_init_def)
  from 1 2 3 4 show ?thesis by blast
qed

theorem nonempty_ignore_list_extended_witness:
  "(0::nat) < length [[''os'']] \<and> [[''os'']] ! 0 \<noteq> []
   \<and> (if name_truthy None then None else root_path (ModuleComponentLoader (Some ''proj''))) \<noteq> None
   \<and> fst (load_dependencies_all demo_env (ModuleComponentLoader (Some ''proj'')) [[''os'']] (Some 0))
        = [[''os'', ''abc'', ''typing'']]
   \<and> fst (load_components demo_env (ModuleComponentLoader (Some ''proj'')) None [[''os'']] (Some 0))
        = [[''os'', ''abc'', ''typing'']]"
proof -
  have a: "(0::nat) < length [[''os'']]" and b: "[[''os'']] ! 0 \<noteq> []" by simp_all
  have c: "(if name_truthy None then None else root_path (ModuleComponentLoader (Some ''proj''))) \<noteq> None"
    by (simp add: name_truthy_def ModuleComponentLoader_def ignore_native_library_def ignore_deps_def
        ComponentLoader_init_def)
  from nonempty_ignore_list_extended[OF a b, of demo_env "ModuleComponentLoader (Some ''proj'')"
      None "Some ''proj''"] a b c
  show ?thesis by simp
qed

text \<open>
  C10, as stated, fails for an empty list: \<open>not ignore_dependencies\<close> holds of \<open>[]\<close>, the
  name is rebound to a new list, and the built-in entries go there. The caller's list,
  cell \<open>0\<close> of the store, is still empty after \<open>load_components\<close>.
\<close>

theorem empty_ignore_list_not_extended:
  "fst (load_components demo_env (ModuleComponentLoader (Some ''proj'')) None [[]] (Some 0))
     = [[], [''abc'', ''typing'']]
   \<and> fst (load_components demo_env (ModuleComponentLoader (Some ''proj'')) None [[]] (Some 0)) ! 0
     \<noteq> [[]] ! 0 @ ignore_dependencies (ModuleComponentLoader (Some ''proj''))"
proof -
  have c: "(if name_truthy None then None else root_path (ModuleComponentLoader (Some ''proj''))) = Some ''proj''"
    by (simp add: name_truthy_def ModuleComponentLoader_def ignore_native_library_def ignore_deps_def
        ComponentLoader_init_def)
  have i: "ignore_dependencies (ModuleComponentLoader (Some ''proj'')) = [''abc'', ''typing'']"
    by (simp add: ModuleComponentLoader_def ignore_native_library_def ignore_deps_def
        ComponentLoader_init_def)
  from load_components_store[OF c, of demo_env "[[]]" "Some 0"] i show ?thesis
    by (simp add: ignore_target_def)
qed

subsection \<open>Ignored names\<close>

lemma load_dependencies_skips:
  assumes "load_dependencies e c ign = Inr c1" "ignored ign d" "d \<notin> set (external_dependencies c)"
  shows "d \<notin> set (external_dependencies c1)"
proof (cases "external_dependencies c = []")
  case True
  from load_dependencies_members[OF assms(1) True] assms(2) show ?thesis by auto
next
  case False
  with assms(1) have "c1 = c" by (simp add: load_dependencies_def)
  with assms(3) show ?thesis by simp
qed

lemma turn_no_out:
  assumes k: "map_of cs k = Some c" and l: "load_dependencies e c ign = Inr c1"
    and i: "ignored ign d"
    and n: "\<And>y v. map_of cs y = Some v \<Longrightarrow> d \<notin> set (external_dependencies v)"
    and u: "map_of (link_dependents c1 (external_dependencies c1) (AList.update k c1 cs)) y = Some cy"
  shows "d \<notin> set (external_dependencies cy)"
proof -
  from u turn_lookup[OF k, of c1 "external_dependencies c1" y]
  obtain va where va: "(if y = k then Some c1 else map_of cs y) = Some va"
    and cy: "cy = (if y \<in> set (external_dependencies c1) then add_dependency va c1 True else va)"
    by (cases "if y = k then Some c1 else map_of cs y") auto
  from cy have x: "external_dependencies cy = external_dependencies va"
    by (simp add: add_dependency_internal_simps)
  have "d \<notin> set (external_dependencies va)"
  proof (cases "y = k")
    case True
    with va have "va = c1" by simp
    with load_dependencies_skips[OF l i n[OF k]] show ?thesis by simp
  next
    case False
    with va n[of y va] show ?thesis by simp
  qed
  with x show ?thesis by simp
qed

lemma resolve_units_no_out:
  "resolve_units e ign ks cs = Inr cs' \<Longrightarrow> ignored ign d
     \<Longrightarrow> (\<And>y v. map_of cs y = Some v \<Longrightarrow> d \<notin> set (external_dependencies v))
     \<Longrightarrow> map_of cs' y = Some v \<Longrightarrow> d \<notin> set (external_dependencies v)"
proof (induction ks arbitrary: cs)
  case Nil
  then show ?case by simp
next
  case (Cons k ks)
  show ?case
  proof (cases "map_of cs k")
    case None
    with Cons.prems(1) have r: "resolve_units e ign ks cs = Inr cs'" by simp
    from Cons.IH[OF r Cons.prems(2) Cons.prems(3) Cons.prems(4)] show ?thesis by simp
  next
    case (Some c)
    with Cons.prems(1) obtain c1 where l: "load_dependencies e c ign = Inr c1"
      and r: "resolve_units e ign ks
                (link_dependents c1 (external_dependencies c1) (AList.update k c1 cs)) = Inr cs'"
      by (cases "load_dependencies e c ign") simp_all
    show ?thesis
      by (rule Cons.IH[OF r Cons.prems(2) _ Cons.prems(4)])
         (rule turn_no_out[OF Some l Cons.prems(2) Cons.prems(3)])
  qed
qed

lemma turn_no_in:
  assumes k: "map_of cs k = Some c" and l: "load_dependencies e c ign = Inr c1"
    and n: "\<And>y v. map_of cs y = Some v \<Longrightarrow> name v \<noteq> d \<and> d \<notin> set (internal_dependents v)"
    and u: "map_of (link_dependents c1 (external_dependencies c1) (AList.update k c1 cs)) y = Some cy"
  shows "name cy \<noteq> d \<and> d \<notin> set (internal_dependents cy)"
proof -
  from load_dependencies_shape[OF l] obtain X where "c1 = c\<lparr>external_dependencies := X\<rparr>" by blast
  then have c1: "name c1 = name c" "internal_dependents c1 = internal_dependents c" by simp_all
  from n[OF k] c1 have g: "name c1 \<noteq> d \<and> d \<notin> set (internal_dependents c1)" by simp
  from u turn_lookup[OF k, of c1 "external_dependencies c1" y]
  obtain va where va: "(if y = k then Some c1 else map_of cs y) = Some va"
    and cy: "cy = (if y \<in> set (external_dependencies c1) then add_dependency va c1 True else va)"
    by (cases "if y = k then Some c1 else map_of cs y") auto
  have v: "name va \<noteq> d \<and> d \<notin> set (internal_dependents va)"
  proof (cases "y = k")
    case True
    with va g show ?thesis by simp
  next
    case False
    with va n[of y va] show ?thesis by simp
  qed
  from cy have "name cy = name va"
    and "set (internal_dependents cy) \<subseteq> insert (name c1) (set (internal_dependents va))"
    by (auto simp: add_dependency_internal_simps)
  with v g show ?thesis by auto
qed

lemma resolve_units_no_in:
  "resolve_units e ign ks cs = Inr cs'
     \<Longrightarrow> (\<And>y v. map_of cs y = Some v \<Longrightarrow> name v \<noteq> d \<and> d \<notin> set (internal_dependents v))
     \<Longrightarrow> map_of cs' y = Some v \<Longrightarrow> name v \<noteq> d \<and> d \<notin> set (internal_dependents v)"
proof (induction ks arbitrary: cs)
  case Nil
  then show ?case by simp
next
  case (Cons k ks)
  show ?case
  proof (cases "map_of cs k")
    case None
    with Cons.prems(1) have r: "resolve_units e ign ks cs = Inr cs'" by simp
    from Cons.IH[OF r Cons.prems(2) Cons.prems(3)] show ?thesis by simp
  next
    case (Some c)
    with Cons.prems(1) obtain c1 where l: "load_dependencies e c ign = Inr c1"
      and r: "resolve_units e ign ks
                (link_dependents c1 (external_dependencies c1) (AList.update k c1 cs)) = Inr cs'"
      by (cases "load_dependencies e c ign") simp_all
    show ?thesis
      by (rule Cons.IH[OF r _ Cons.prems(3)]) (rule turn_no_in[OF Some l Cons.prems(2)])
  qed
qed

lemma ModuleComponent_other_env:
  assumes "d \<noteq> Some m" "\<And>x. x \<noteq> m \<Longrightarrow> import_module e' x = import_module e x"
  shows "ModuleComponent e' None d = ModuleComponent e None d"
proof (cases d)
  case None
  then show ?thesis by (simp add: ModuleComponent_def)
next
  case (Some n)
  with assms(1) have "n \<noteq> m" by simp
  from assms(2)[OF this] have "get_path_from_name e' n = get_path_from_name e n"
    by (simp add: get_path_from_name_def)
  with Some show ?thesis by (simp add: ModuleComponent_def Let_def)
qed

lemma add_modules_other_env:
  assumes "ignored ign (Some m)" "\<And>x. x \<noteq> m \<Longrightarrow> import_module e' x = import_module e x"
  shows "add_modules e' ign ms u = add_modules e ign ms u"
proof (induction ms arbitrary: u)
  case Nil
  show ?case by simp
next
  case (Cons d ds)
  show ?case
  proof (cases "ignored ign d")
    case True
    with Cons.IH show ?thesis by simp
  next
    case False
    with assms(1) have "d \<noteq> Some m" by auto
    from ModuleComponent_other_env[OF this assms(2)] False Cons.IH show ?thesis
      by (simp split: sum.splits)
  qed
qed

lemma unmentioned_lookup:
  "unmentioned m cs \<Longrightarrow> map_of cs y = Some v
     \<Longrightarrow> Some m \<notin> set (external_dependencies v) \<and> Some m \<notin> set (internal_dependents v)"
  by (auto simp: unmentioned_def list_all_iff dest: map_of_SomeD)

lemma not_a_unit_lookup: "not_a_unit m cs \<Longrightarrow> map_of cs y = Some v \<Longrightarrow> name v \<noteq> Some m"
  by (auto simp: not_a_unit_def list_all_iff dest: map_of_SomeD)

text \<open>
  C8, as the code has it. Take a name \<open>m\<close> of the merged ignore list, a mapping none of
  whose units mentions \<open>m\<close> yet, and a run of the dependency-resolution pass that returns.
  The pass adds no key to the mapping and never evaluates the unit constructor at \<open>m\<close>
  (the loop over the extracted names is the same in an environment that differs only in
  what importing \<open>m\<close> does); \<open>m\<close> is in no unit's outgoing set; and \<open>m\<close> is in no unit's
  incoming set, provided no unit of the mapping is named \<open>m\<close>.
\<close>

theorem ignored_name_leaves_no_edge:
  assumes "load_dependencies_all e self h arg = (h1, Inr s1)"
    and "m \<in> set (effective_ignore self h arg)"
    and "unmentioned m (components self)"
    and "map_of (components s1) k = Some c"
  shows "map fst (components s1) = map fst (components self)
       \<and> Some m \<notin> set (external_dependencies c)
       \<and> (not_a_unit m (components self) \<longrightarrow> Some m \<notin> set (internal_dependents c))
       \<and> (\<forall>e' ms u. (\<forall>x. x \<noteq> m \<longrightarrow> import_module e' x = import_module e x) \<longrightarrow>
             add_modules e' (Some (effective_ignore self h arg)) ms u
               = add_modules e (Some (effective_ignore self h arg)) ms u)"
proof -
  let ?ign = "Some (effective_ignore self h arg)"
  from load_dependencies_all_Inr(1)[OF assms(1)]
  have r: "resolve_units e ?ign (map fst (components self)) (components self) = Inr (components s1)" .
  from assms(2) have i: "ignored ?ign (Some m)" by (auto simp: ignored_def)
  have 1: "map fst (components s1) = map fst (components self)" by (rule resolve_units_keys[OF r])
  have 2: "Some m \<notin> set (external_dependencies c)"
  proof (rule resolve_units_no_out[OF r i _ assms(4)])
    fix y v assume "map_of (components self) y = Some v"
    from unmentioned_lookup[OF assms(3) this] show "Some m \<notin> set (external_dependencies v)" by simp
  qed
  have 3: "Some m \<notin> set (internal_dependents c)" if n: "not_a_unit m (components self)"
  proof -
    have "name c \<noteq> Some m \<and> Some m \<notin> set (internal_dependents c)"
    proof (rule resolve_units_no_in[OF r _ assms(4)])
      fix y v assume l: "map_of (components self) y = Some v"
      from unmentioned_lookup[OF assms(3) l] not_a_unit_lookup[OF n l]
      show "name v \<noteq> Some m \<and> Some m \<notin> set (internal_dependents v)" by simp
    qed
    then show ?thesis by simp
  qed
  have 4: "add_modules e' ?ign ms u = add_modules e ?ign ms u"
    if "\<forall>x. x \<noteq> m \<longrightarrow> import_module e' x = import_module e x" for e' ms u
    by (rule add_modules_other_env[OF i]) (use that in blast)
  from 1 2 3 4 show ?thesis by blast
qed

lemma demo_load_main_no_os:
  "load_dependencies demo_env demo_main (Some [''os'', ''abc'', ''typing'']) = Inr demo_main_no_os"
  by (simp add: load_dependencies_def demo_main_deps demo_imports ignored_def add_dependency_def
      demo_main_no_os_def List.insert_def demo_fields Component_init_def)

lemma demo_load_rest_any:
  "''typing'' \<in> set l \<Longrightarrow> load_dependencies demo_env demo_util (Some l) = Inr demo_util"
  "load_dependencies demo_env demo_init ign = Inr demo_init"
  by (auto simp: load_dependencies_def demo_util_deps demo_init_deps ignored_def demo_fields)

lemma demo_load_main_self_ignored:
  "load_dependencies demo_env demo_main (Some [''proj.main'', ''abc'', ''typing''])
     = Inr demo_main_resolved"
  by (simp add: load_dependencies_def demo_main_deps demo_imports ignored_def add_dependency_def
      demo_main_resolved_def List.insert_def demo_fields Component_init_def)

lemma demo_resolution_no_os:
  "load_dependencies_all demo_env demo_found [[''os'']] (Some 0)
     = ([[''os'', ''abc'', ''typing'']], Inr demo_resolved_no_os)"
  by (simp add: load_dependencies_all_def ignore_target_def demo_found_def demo_resolved_no_os_def
      demo_load_rest_any demo_load_main_no_os add_dependency_def demo_fields
      demo_main_no_os_def demo_util_resolved_def List.insert_def load_dependencies_frame)

lemma demo_resolution_self_ignored:
  "load_dependencies_all demo_env demo_found [[''proj.main'']] (Some 0)
     = ([[''proj.main'', ''abc'', ''typing'']], Inr demo_resolved)"
  by (simp add: load_dependencies_all_def ignore_target_def demo_found_def demo_resolved_def
      demo_load_rest_any demo_load_main_self_ignored add_dependency_def demo_fields
      demo_main_resolved_def demo_util_resolved_def List.insert_def load_dependencies_frame)

theorem ignored_name_leaves_no_edge_witness:
  "load_dependencies_all demo_env demo_found [[''os'']] (Some 0)
     = ([[''os'', ''abc'', ''typing'']], Inr demo_resolved_no_os)
   \<and> ''os'' \<in> set (effective_ignore demo_found [[''os'']] (Some 0))
   \<and> unmentioned ''os'' (components demo_found)
   \<and> not_a_unit ''os'' (components demo_found)
   \<and> map_of (components demo_resolved_no_os) (Some ''proj.main'') = Some demo_main_no_os
   \<and> map fst (components demo_resolved_no_os) = map fst (components demo_found)
   \<and> Some ''os'' \<notin> set (external_dependencies demo_main_no_os)
   \<and> Some ''os'' \<notin> set (internal_dependents demo_main_no_os)"
proof -
  have i: "''os'' \<in> set (effective_ignore demo_found [[''os'']] (Some 0))"
    by (simp add: effective_ignore_def ignore_target_def)
  have u: "unmentioned ''os'' (components demo_found)"
    and n: "not_a_unit ''os'' (components demo_found)"
    by (simp_all add: unmentioned_def not_a_unit_def demo_found_def demo_init_def demo_main_def
        demo_util_def Component_init_def)
  have l: "map_of (components demo_resolved_no_os) (Some ''proj.main'') = Some demo_main_no_os"
    by (simp add: demo_resolved_no_os_def)
  from ignored_name_leaves_no_edge[OF demo_resolution_no_os i u l] n demo_resolution_no_os i u l
  show ?thesis by blast
qed

text \<open>
  C8, as stated, fails for a name that is itself a discovered unit: with \<open>proj.main\<close> on
  the ignore list, \<open>proj.main\<close> is still processed, still imports \<open>proj.util\<close>, and is
  counted in the incoming set of \<open>proj.util\<close>.
\<close>

theorem ignored_unit_counts_as_dependent:
  "load_dependencies_all demo_env demo_found [[''proj.main'']] (Some 0)
     = ([[''proj.main'', ''abc'', ''typing'']], Inr demo_resolved)
   \<and> ''proj.main'' \<in> set (effective_ignore demo_found [[''proj.main'']] (Some 0))
   \<and> unmentioned ''proj.main'' (components demo_found)
   \<and> map_of (components demo_resolved) (Some ''proj.util'') = Some demo_util_resolved
   \<and> Some ''proj.main'' \<in> set (internal_dependents demo_util_resolved)
   \<and> length (internal_dependents demo_util_resolved) = 1"
  by (simp add: demo_resolution_self_ignored effective_ignore_def ignore_target_def)
     (simp add: unmentioned_def demo_found_def demo_resolved_def demo_util_resolved_def
        demo_init_def demo_main_def demo_util_def Component_init_def)

subsection \<open>Metrics\<close>

lemma ratio_bounds: "0 \<le> ratio p (p + q) \<and> ratio p (p + q) \<le> 1"
  by (simp add: ratio_def divide_le_eq_1)

lemma calculate_instability_ok:
  assumes "metrics_ok u"
  shows "metrics_ok (calculate_instability u)"
    and "\<exists>i. instability (calculate_instability u) = Some i \<and> 0 \<le> i \<and> i \<le> 1"
    and "abstraction (calculate_instability u) = abstraction u"
    and "distance (calculate_instability u) = distance u"
proof -
  show "abstraction (calculate_instability u) = abstraction u"
    and "distance (calculate_instability u) = distance u"
    by (simp_all add: calculate_instability_def Let_def split: option.splits)
  show "metrics_ok (calculate_instability u)"
    and "\<exists>i. instability (calculate_instability u) = Some i \<and> 0 \<le> i \<and> i \<le> 1"
    using assms ratio_bounds[of "length (external_dependencies u)" "length (internal_dependents u)"]
    by (cases "instability u"; cases "distance u";
        simp add: calculate_instability_def Let_def metrics_ok_def split: option.splits)+
qed

lemma calculate_abstraction_ok:
  assumes "metrics_ok u"
  shows "metrics_ok (calculate_abstraction u)"
    and "\<exists>a. abstraction (calculate_abstraction u) = Some a \<and> 0 \<le> a \<and> a \<le> 1"
    and "instability (calculate_abstraction u) = instability u"
    and "distance (calculate_abstraction u) = distance u"
proof -
  show "instability (calculate_abstraction u) = instability u"
    and "distance (calculate_abstraction u) = distance u"
    by (simp_all add: calculate_abstraction_def Let_def split: option.splits)
  show "metrics_ok (calculate_abstraction u)"
    and "\<exists>a. abstraction (calculate_abstraction u) = Some a \<and> 0 \<le> a \<and> a \<le> 1"
    using assms ratio_bounds[of "length (abstract_classes u)" "length (no_abstract_classes u)"]
    by (cases "abstraction u"; cases "distance u";
        simp add: calculate_abstraction_def Let_def metrics_ok_def split: option.splits)+
qed

lemma add_members_metrics:
  "instability (add_members ms u) = instability u \<and> abstraction (add_members ms u) = abstraction u
   \<and> distance (add_members ms u) = distance u"
  by (induction ms u rule: add_members.induct) (simp_all add: add_class_def)

lemma load_classes_ok:
  assumes "load_classes e u = Inr u1" "metrics_ok u"
  shows "metrics_ok u1" and "instability u1 = instability u"
proof -
  from assms(1) have "u1 = u \<or> (\<exists>ms. u1 = add_members ms u)"
    by (auto simp: load_classes_def split: if_splits option.splits import_outcome.splits)
  with add_members_metrics have m: "instability u1 = instability u \<and> abstraction u1 = abstraction u
      \<and> distance u1 = distance u" by auto
  with assms(2) show "metrics_ok u1" by (auto simp: metrics_ok_def split: option.splits)
  from m show "instability u1 = instability u" by simp
qed

lemma get_distance_ok:
  assumes "metrics_ok u" "instability u = Some i" "abstraction u = Some a"
  shows "snd (get_distance u) = \<bar>a + i - 1\<bar>" and "metrics_ok (fst (get_distance u))"
  using assms
  by (cases "distance u";
      simp add: get_distance_def calculate_instability_def calculate_abstraction_def
        metric_value_def metrics_ok_def Let_def)+

lemma distance_bounds:
  fixes a i :: rat
  shows "0 \<le> a \<Longrightarrow> a \<le> 1 \<Longrightarrow> 0 \<le> i \<Longrightarrow> i \<le> 1 \<Longrightarrow> 0 \<le> \<bar>a + i - 1\<bar> \<and> \<bar>a + i - 1\<bar> \<le> 1"
  by linarith

lemma turn_point:
  assumes ok: "metrics_ok c"
    and i: "get_instability c = (c1, i)"
    and a: "get_abstraction e c1 = Inr (c2, a)"
    and d: "get_distance c2 = (c3, dv)"
  shows "on_formula \<lparr>pt_x = i, pt_y = a, pt_d = dv\<rparr>" and "metrics_ok c3"
proof -
  from i have c1: "c1 = calculate_instability c" and iv: "i = instability c1"
    by (auto simp: get_instability_def Let_def)
  from calculate_instability_ok[OF ok] c1 iv obtain i0 where ok1: "metrics_ok c1"
    and i0: "instability c1 = Some i0" "i = Some i0" "0 \<le> i0" "i0 \<le> 1" by auto
  from a obtain cl where cl: "load_classes e c1 = Inr cl" and c2: "c2 = calculate_abstraction cl"
    and av: "a = abstraction c2"
    by (auto simp: get_abstraction_def Let_def split: sum.splits)
  from load_classes_ok[OF cl ok1] i0 have okl: "metrics_ok cl" and il: "instability cl = Some i0"
    by simp_all
  from calculate_abstraction_ok[OF okl] c2 av il obtain a0 where ok2: "metrics_ok c2"
    and a0: "abstraction c2 = Some a0" "a = Some a0" "0 \<le> a0" "a0 \<le> 1"
    and i2: "instability c2 = Some i0" by auto
  from get_distance_ok[OF ok2 i2 a0(1)] d have dv: "dv = \<bar>a0 + i0 - 1\<bar>" and ok3: "metrics_ok c3"
    by simp_all
  from distance_bounds[OF a0(3,4) i0(3,4)] dv i0 a0
  show "on_formula \<lparr>pt_x = i, pt_y = a, pt_d = dv\<rparr>" by (simp add: on_formula_def)
  from ok3 show "metrics_ok c3" .
qed

lemma plane_each_points:
  "plane_each e cs acc = Inr (cs1, plane) \<Longrightarrow> list_all (\<lambda>(k, c). metrics_ok c) cs
     \<Longrightarrow> (\<And>k pt. map_of acc k = Some pt \<Longrightarrow> on_formula pt)
     \<Longrightarrow> (\<forall>k pt. map_of plane k = Some pt \<longrightarrow> on_formula pt)
         \<and> list_all (\<lambda>(k, c). metrics_ok c) cs1
         \<and> map fst cs1 = map fst cs
         \<and> fst ` set plane = fst ` set acc \<union> fst ` set cs"
proof (induction cs arbitrary: acc cs1 plane)
  case Nil
  then show ?case by auto
next
  case (Cons kc rest)
  obtain k c where kc: "kc = (k, c)" by (cases kc)
  obtain c1 i where i: "get_instability c = (c1, i)" by (cases "get_instability c")
  from Cons.prems(1) kc i obtain c2 a where a: "get_abstraction e c1 = Inr (c2, a)"
    by (cases "get_abstraction e c1") auto
  obtain c3 dv where d: "get_distance c2 = (c3, dv)" by (cases "get_distance c2")
  let ?acc = "AList.update k \<lparr>pt_x = i, pt_y = a, pt_d = dv\<rparr> acc"
  from Cons.prems(1) kc i a d obtain rest1 where r: "plane_each e rest ?acc = Inr (rest1, plane)"
    and cs1: "cs1 = (k, c3) # rest1"
    by (cases "plane_each e rest ?acc") auto
  from Cons.prems(2) kc have ok: "metrics_ok c" and okr: "list_all (\<lambda>(k, c). metrics_ok c) rest"
    by simp_all
  from turn_point[OF ok i a d] have p: "on_formula \<lparr>pt_x = i, pt_y = a, pt_d = dv\<rparr>"
    and ok3: "metrics_ok c3" by simp_all
  have acc: "on_formula pt" if "map_of ?acc k' = Some pt" for k' pt
    using that p Cons.prems(3)[of k' pt] by (cases "k' = k") (simp_all add: update_conv')
  from Cons.IH[OF r okr acc] cs1 ok3 kc show ?case
    by (auto simp: dom_update)
qed

text \<open>
  C6. Every point of the plane that \<open>get_as_plane\<close> returns has an instability and an
  abstraction, its distance is exactly \<open>|abstraction + instability - 1|\<close>, and all three
  lie between \<open>0\<close> and \<open>1\<close>; every unit of the mapping has its point. The units are taken
  with metric fields that are unset or were set by these same operations.
\<close>

theorem get_as_plane_on_formula:
  assumes "get_as_plane e self = Inr (s1, plane)"
    and "list_all (\<lambda>(k, c). metrics_ok c) (components self)"
  shows "(\<forall>k pt. map_of plane k = Some pt \<longrightarrow>
            (\<exists>i a. pt_x pt = Some i \<and> pt_y pt = Some a \<and> pt_d pt = \<bar>a + i - 1\<bar>
               \<and> 0 \<le> i \<and> i \<le> 1 \<and> 0 \<le> a \<and> a \<le> 1 \<and> 0 \<le> pt_d pt \<and> pt_d pt \<le> 1))
       \<and> fst ` set plane = fst ` set (components self)
       \<and> list_all (\<lambda>(k, c). metrics_ok c) (components s1)"
proof -
  from assms(1) obtain cs1 where p: "plane_each e (components self) [] = Inr (cs1, plane)"
    and s1: "s1 = self\<lparr>components := cs1\<rparr>"
    by (auto simp: get_as_plane_def split: sum.splits)
  have "on_formula pt" if "map_of [] k = Some pt" for k :: pyname and pt
    using that by simp
  from plane_each_points[OF p assms(2) this]
  have f: "\<forall>k pt. map_of plane k = Some pt \<longrightarrow> on_formula pt"
    and o: "list_all (\<lambda>(k, c). metrics_ok c) cs1"
    and k: "fst ` set plane = fst ` set (components self)" by auto
  have "\<exists>i a. pt_x pt = Some i \<and> pt_y pt = Some a \<and> pt_d pt = \<bar>a + i - 1\<bar>
               \<and> 0 \<le> i \<and> i \<le> 1 \<and> 0 \<le> a \<and> a \<le> 1 \<and> 0 \<le> pt_d pt \<and> pt_d pt \<le> 1"
    if "map_of plane k = Some pt" for k pt
  proof -
    from f that have "on_formula pt" by blast
    then show ?thesis by (cases "pt_x pt"; cases "pt_y pt") (simp_all add: on_formula_def)
  qed
  with o k s1 show ?thesis by simp
qed

lemma demo_units_unfolded:
  "demo_init = \<lparr> name = Some ''proj'', path = Some (Path ''proj/__init__.py''),
     external_dependencies = [], internal_dependents = [], abstract_classes = [],
     no_abstract_classes = [], abstraction = None, instability = None, distance = None \<rparr>"
  "demo_main_resolved = \<lparr> name = Some ''proj.main'', path = Some (Path ''proj/main.py''),
     external_dependencies = [Some ''proj.util'', Some ''os'', Some ''pkg'', Some ''pkg.a''],
     internal_dependents = [], abstract_classes = [],
     no_abstract_classes = [], abstraction = None, instability = None, distance = None \<rparr>"
  "demo_util_classified = \<lparr> name = Some ''proj.util'', path = Some (Path ''proj/util.py''),
     external_dependencies = [], internal_dependents = [Some ''proj.main''],
     abstract_classes = [ClassObj ''Base'' ''proj.util'' True],
     no_abstract_classes = [ClassObj ''Impl'' ''proj.util'' False],
     abstraction = None, instability = None, distance = None \<rparr>"
  by (simp_all add: demo_init_def demo_main_resolved_def demo_main_def demo_util_classified_def
      demo_util_resolved_def demo_util_def Component_init_def)

lemma demo_measure_units:
  "get_instability demo_init = (demo_init\<lparr>instability := Some 0\<rparr>, Some 0)"
  "get_abstraction demo_env (demo_init\<lparr>instability := Some 0\<rparr>)
     = Inr (demo_init\<lparr>abstraction := Some 0, instability := Some 0\<rparr>, Some 0)"
  "get_distance (demo_init\<lparr>abstraction := Some 0, instability := Some 0\<rparr>)
     = (demo_init\<lparr>abstraction := Some 0, instability := Some 0, distance := Some 1\<rparr>, 1)"
  "get_instability demo_main_resolved = (demo_main_resolved\<lparr>instability := Some 1\<rparr>, Some 1)"
  "get_abstraction demo_env (demo_main_resolved\<lparr>instability := Some 1\<rparr>)
     = Inr (demo_main_resolved\<lparr>abstraction := Some 0, instability := Some 1\<rparr>, Some 0)"
  "get_distance (demo_main_resolved\<lparr>abstraction := Some 0, instability := Some 1\<rparr>)
     = (demo_main_resolved\<lparr>abstraction := Some 0, instability := Some 1, distance := Some 0\<rparr>, 0)"
  "get_instability demo_util_classified = (demo_util_classified\<lparr>instability := Some 0\<rparr>, Some 0)"
  "get_abstraction demo_env (demo_util_classified\<lparr>instability := Some 0\<rparr>)
     = Inr (demo_util_classified\<lparr>abstraction := Some (1 / 2), instability := Some 0\<rparr>, Some (1 / 2))"
  "get_distance (demo_util_classified\<lparr>abstraction := Some (1 / 2), instability := Some 0\<rparr>)
     = (demo_util_classified\<lparr>abstraction := Some (1 / 2), instability := Some 0,
          distance := Some (1 / 2)\<rparr>, 1 / 2)"
  by (simp_all add: demo_units_unfolded get_instability_def calculate_instability_def ratio_def
      get_abstraction_def load_classes_def demo_env_def calculate_abstraction_def get_distance_def
      metric_value_def Let_def)

lemma demo_measurement: "get_as_plane demo_env demo_classified = Inr (demo_measured, demo_plane)"
  by (simp add: get_as_plane_def demo_classified_def demo_measure_units demo_measured_def
      demo_plane_def)

theorem get_as_plane_on_formula_witness:
  "get_as_plane demo_env demo_classified = Inr (demo_measured, demo_plane)
   \<and> list_all (\<lambda>(k, c). metrics_ok c) (components demo_classified)
   \<and> map_of demo_plane (Some ''proj.util'') = Some \<lparr>pt_x = Some 0, pt_y = Some (1 / 2), pt_d = 1 / 2\<rparr>
   \<and> (\<exists>i a. pt_x \<lparr>pt_x = Some 0, pt_y = Some (1 / 2), pt_d = 1 / 2\<rparr> = Some i
          \<and> pt_y \<lparr>pt_x = Some 0, pt_y = Some (1 / 2), pt_d = 1 / 2\<rparr> = Some a
          \<and> pt_d \<lparr>pt_x = Some 0, pt_y = Some (1 / 2), pt_d = 1 / 2\<rparr> = \<bar>a + i - 1\<bar>)
   \<and> fst ` set demo_plane = fst ` set (components demo_classified)
   \<and> list_all (\<lambda>(k, c). metrics_ok c) (components demo_measured)"
proof -
  have o: "list_all (\<lambda>(k, c). metrics_ok c) (components demo_classified)"
    by (simp add: demo_classified_def demo_units_unfolded metrics_ok_def)
  have p: "map_of demo_plane (Some ''proj.util'')
      = Some \<lparr>pt_x = Some 0, pt_y = Some (1 / 2), pt_d = 1 / 2\<rparr>"
    by (simp add: demo_plane_def)
  from get_as_plane_on_formula[OF demo_measurement o] p demo_measurement o
  show ?thesis by blast
qed

subsection \<open>Discovery\<close>




text \<open>A directory without \<open>__init__.py\<close> yields an empty mapping, and both passes
  over it return.\<close>

lemma empty_discovery:
  "load_components empty_env (ModuleComponentLoader (Some ''empty'')) None [] None
     = ([[''abc'', ''typing'']], Inr (ModuleComponentLoader (Some ''empty'')))"
  by (simp add: load_components_def load_components_of_def get_py_modules_def empty_env_def
      ModuleComponentLoader_def ignore_native_library_def ignore_deps_def ComponentLoader_init_def
      name_truthy_def load_dependencies_all_def ignore_target_def load_classes_all_def)

subsection \<open>Instability\<close>










lemma demo_stale_fields:
  "external_dependencies demo_main_read = []"
  "demo_main_read\<lparr>external_dependencies := X\<rparr> = (demo_main\<lparr>external_dependencies := X\<rparr>)\<lparr>instability := Some 0\<rparr>"
  by (simp_all add: demo_main_read_def demo_main_def Component_init_def)








end
